theory Spec2Isabelle
  imports Main "HOL-Library.Log_Nat"
begin

section \<open>JavaScript values used by the leaderboard engine\<close>

text \<open>
  The development embeds \<^verbatim>\<open>api/leaderboard.js\<close> (and, where the revisions of the
  file kept in the repository differ, the two other revisions of it). JavaScript strings are
  modelled as lists of 8-bit characters, \<^verbatim>\<open>BigInt\<close> values as \<^typ>\<open>int\<close>, and an
  exception as a value of \<open>js_error\<close> on the left of a sum.
\<close>

datatype js_error = JsError (message: string) (httpStatus: "int option") (bodyText: string)

text \<open>The \<^verbatim>\<open>SyntaxError\<close> that \<^verbatim>\<open>BigInt(str)\<close> throws on a string that is no integer literal.\<close>

definition syntaxError :: "string \<Rightarrow> js_error" where
  "syntaxError s = JsError (''Cannot convert '' @ s @ '' to a BigInt'') None []"

definition toLowerCaseChar :: "char \<Rightarrow> char" where
  "toLowerCaseChar c =
     (let n = (of_char c :: nat)
      in if (65 \<le> n \<and> n \<le> 90) \<or> (192 \<le> n \<and> n \<le> 222 \<and> n \<noteq> 215)
         then char_of (n + 32) else c)"

definition toLowerCase :: "string \<Rightarrow> string" where
  "toLowerCase s = map toLowerCaseChar s"

text \<open>\<^verbatim>\<open>s.slice(b, e)\<close> for non-negative integer positions.\<close>

definition slice :: "string \<Rightarrow> nat \<Rightarrow> nat \<Rightarrow> string" where
  "slice s b e = take (e - b) (drop b s)"

text \<open>\<^verbatim>\<open>s.startsWith("0x") ? s.slice(2) : s\<close>\<close>

definition strip0x :: "string \<Rightarrow> string" where
  "strip0x s = (if take 2 s = ''0x'' then drop 2 s else s)"

definition isHexDigit :: "char \<Rightarrow> bool" where
  "isHexDigit c =
     (let n = (of_char c :: nat)
      in (48 \<le> n \<and> n \<le> 57) \<or> (97 \<le> n \<and> n \<le> 102) \<or> (65 \<le> n \<and> n \<le> 70))"

definition hexDigitVal :: "char \<Rightarrow> nat" where
  "hexDigitVal c =
     (let n = (of_char c :: nat)
      in if 48 \<le> n \<and> n \<le> 57 then n - 48
         else if 97 \<le> n \<and> n \<le> 102 then n - 87
         else n - 55)"

definition parseHex :: "string \<Rightarrow> nat" where
  "parseHex s = foldl (\<lambda>acc c. acc * 16 + hexDigitVal c) 0 s"

text \<open>White space that the string-to-number grammar skips (the code units below 256).\<close>

definition isStrWhiteSpace :: "char \<Rightarrow> bool" where
  "isStrWhiteSpace c = ((of_char c :: nat) \<in> {9, 10, 11, 12, 13, 32, 160})"

text \<open>
  \<^verbatim>\<open>BigInt("0x" + s)\<close>: the text after the prefix must be one or more hexadecimal digits,
  optionally followed by white space; anything else throws.
\<close>

definition BigInt0x :: "string \<Rightarrow> js_error + int" where
  "BigInt0x s =
     (let t = rev (dropWhile isStrWhiteSpace (rev s))
      in if t \<noteq> [] \<and> list_all isHexDigit t then Inr (int (parseHex t))
         else Inl (syntaxError (''0x'' @ s)))"

text \<open>
  \<^verbatim>\<open>Number(b)\<close> for a BigInt \<open>b\<close>: the nearest double, ties to even. Below \<open>2^53\<close> in
  magnitude the value is exact; above, it is rounded to 53 significant bits. (Values of
  \<open>2^1024\<close> and more would become infinite; the engine converts 256-bit words only.)
\<close>

definition NumberOfBigInt :: "int \<Rightarrow> int" where
  "NumberOfBigInt b =
     (let a = nat \<bar>b\<bar>
      in if a < 2 ^ 53 then b
         else let sh = floorlog 2 a - 53;
                  q = a div 2 ^ sh;
                  r = a mod 2 ^ sh;
                  q' = (if 2 * r > 2 ^ sh \<or> (2 * r = 2 ^ sh \<and> odd q) then q + 1 else q)
              in sgn b * int (q' * 2 ^ sh))"

section \<open>Event codec\<close>

text \<open>\<^verbatim>\<open>addrFromTopic\<close>: the last 40 characters of the topic, lower-cased, after \<open>0x\<close>.
  A missing topic is \<open>None\<close>. \<^verbatim>\<open>t.slice(t.length - 40)\<close> with a negative argument counts
  from the end of the string.\<close>

definition addrFromTopic :: "string option \<Rightarrow> string" where
  "addrFromTopic topic1 =
     (let t = strip0x (case topic1 of None \<Rightarrow> [] | Some s \<Rightarrow> s);
          n = length t;
          start = (if 40 \<le> n then n - 40 else (n + n) - 40)
      in toLowerCase (''0x'' @ drop start t))"

text \<open>The tail of \<^verbatim>\<open>extractBytesParamFromLogData\<close>: read the length word at \<open>lenPos\<close> and
  cut the bytes out.\<close>

definition extractTail :: "string \<Rightarrow> nat \<Rightarrow> nat \<Rightarrow> js_error + string option" where
  "extractTail hex lenPos bytesStart =
     (case BigInt0x (slice hex lenPos (lenPos + 64)) of
        Inl e \<Rightarrow> Inl e
      | Inr bl \<Rightarrow>
          let len = nat (NumberOfBigInt bl);
              end = bytesStart + len * 2
          in if end > length hex then Inr None
             else Inr (Some (''0x'' @ slice hex bytesStart end)))"

definition extractBytesParamFromLogData :: "string option \<Rightarrow> js_error + string option" where
  "extractBytesParamFromLogData dataHex =
     (let hex = strip0x (case dataHex of None \<Rightarrow> [] | Some s \<Rightarrow> s)
      in if length hex < 128 then Inr None
         else case BigInt0x (slice hex 0 64) of
            Inl e \<Rightarrow> Inl e
          | Inr b0 \<Rightarrow>
             (case BigInt0x (slice hex 64 128) of
                Inl e \<Rightarrow> Inl e
              | Inr b1 \<Rightarrow>
                 let w0 = NumberOfBigInt b0; w1 = NumberOfBigInt b1
                 in if w0 = 32 then extractTail hex 64 128
                    else let lenPos = nat w1 * 2
                         in if lenPos + 64 > length hex then Inr None
                            else extractTail hex lenPos (lenPos + 64)))"

text \<open>\<^verbatim>\<open>decodePointsAndWeek\<close>: \<open>None\<close> is JavaScript's \<open>null\<close>, for the argument as for the
  result.\<close>

definition decodePointsAndWeek :: "string option \<Rightarrow> js_error + (int \<times> int) option" where
  "decodePointsAndWeek payloadHex =
     (let hex = strip0x (case payloadHex of None \<Rightarrow> [] | Some s \<Rightarrow> s)
      in if hex = [] \<or> length hex < 128 then Inr None
         else case BigInt0x (slice hex 0 64) of
            Inl e \<Rightarrow> Inl e
          | Inr points \<Rightarrow>
             (case BigInt0x (slice hex 64 128) of
                Inl e \<Rightarrow> Inl e
              | Inr week \<Rightarrow> Inr (Some (points, week))))"

text \<open>The two calls in sequence, as both merge loops make them.\<close>

definition decodeLogData :: "string option \<Rightarrow> js_error + (int \<times> int) option" where
  "decodeLogData dataHex =
     (case extractBytesParamFromLogData dataHex of
        Inl e \<Rightarrow> Inl e
      | Inr payload \<Rightarrow> decodePointsAndWeek payload)"

text \<open>The reference encoding of the payload, for the round-trip property: a word is 64
  lower-case hexadecimal digits, most significant first; the payload is the word of the
  points followed by the word of the week start.\<close>

definition hexDigitChar :: "nat \<Rightarrow> char" where
  "hexDigitChar d = ''0123456789abcdef'' ! d"

fun hexWord :: "nat \<Rightarrow> nat \<Rightarrow> string" where
  "hexWord 0 n = []"
| "hexWord (Suc k) n = hexWord k (n div 16) @ [hexDigitChar (n mod 16)]"

definition encodePayload :: "int \<Rightarrow> int \<Rightarrow> string" where
  "encodePayload points week = hexWord 64 (nat points) @ hexWord 64 (nat week)"

text \<open>A log \<open>data\<close> field in the bytes-only layout: the offset word (32), the length
  word (64 bytes), then the payload.\<close>

definition encodeLogData :: "int \<Rightarrow> int \<Rightarrow> string" where
  "encodeLogData points week = ''0x'' @ hexWord 64 32 @ hexWord 64 64 @ encodePayload points week"


section \<open>Address totals\<close>

text \<open>
  A JavaScript \<^verbatim>\<open>Map\<close> from address to total keeps its entries in insertion order, one
  entry for each key: it is modelled as the list of its entries, in that order.
  \<^verbatim>\<open>m.get(k)\<close> is \<open>None\<close> for \<^verbatim>\<open>undefined\<close>; \<^verbatim>\<open>m.set(k, v)\<close> replaces the value
  of a present key in place and appends an absent one.
\<close>

type_synonym totals = "(string \<times> int) list"

definition mapGet :: "totals \<Rightarrow> string \<Rightarrow> int option" where
  "mapGet m k = map_of m k"

fun mapSet :: "totals \<Rightarrow> string \<Rightarrow> int \<Rightarrow> totals" where
  "mapSet [] k v = [(k, v)]"
| "mapSet ((k', v') # m) k v = (if k' = k then (k, v) # m else (k', v') # mapSet m k v)"

text \<open>\<^verbatim>\<open>new Map(entries)\<close>: the entries are set one after the other.\<close>

definition newMap :: "(string \<times> int) list \<Rightarrow> totals" where
  "newMap entries = foldl (\<lambda>m e. mapSet m (fst e) (snd e)) [] entries"

text \<open>
  \<^verbatim>\<open>[...m.entries()].sort((a, b) => (b[1] > a[1] ? 1 : b[1] < a[1] ? -1 : 0))\<close>: the
  entries by descending total. \<^verbatim>\<open>Array.prototype.sort\<close> is stable, as insertion sort by
  the negated total is.
\<close>

definition sortByTotalDesc :: "totals \<Rightarrow> (string \<times> int) list" where
  "sortByTotalDesc m = sort_key (\<lambda>e. - snd e) m"

text \<open>\<^verbatim>\<open>pruneToTop(map, keep)\<close>; \<open>keep\<close> is a count (\<^verbatim>\<open>PRUNE_KEEP\<close> at every call).\<close>

definition pruneToTop :: "totals \<Rightarrow> nat \<Rightarrow> totals" where
  "pruneToTop m keep = newMap (take keep (sortByTotalDesc m))"

definition PRUNE_KEEP :: nat where
  "PRUNE_KEEP = 250"

definition MAX_TOP :: nat where
  "MAX_TOP = 100"

section \<open>Week buckets and the merge of decoded logs\<close>

text \<open>A week bucket \<^verbatim>\<open>{ weekMs, map }\<close>; the field \<^verbatim>\<open>map\<close> is \<open>wmap\<close> here.\<close>

record week_state =
  weekMs :: int
  wmap :: totals

definition emptyWeekState :: "int \<Rightarrow> week_state" where
  "emptyWeekState wk = \<lparr>weekMs = wk, wmap = []\<rparr>"

text \<open>A log record as the merge loops read it: \<^verbatim>\<open>l.topics?.[1]\<close> and \<^verbatim>\<open>l.data\<close>, each
  \<open>None\<close> when absent.\<close>

record log_record =
  topic1 :: "string option"
  data :: "string option"

text \<open>\<^verbatim>\<open>state.weeks.find((x) => x.weekMs === weekMs)\<close>\<close>

definition findWeek :: "week_state list \<Rightarrow> int \<Rightarrow> week_state option" where
  "findWeek ws wk = find (\<lambda>x. weekMs x = wk) ws"

text \<open>
  \<^verbatim>\<open>getOrMakeWeekMap(state, weekMs)\<close> works on \<^verbatim>\<open>state.weeks\<close> only: it returns the map
  of the first bucket of that week, after pushing an empty bucket when there is none. The
  model returns the list of buckets as well, since the push changes it.
\<close>

definition getOrMakeWeekMap :: "week_state list \<Rightarrow> int \<Rightarrow> week_state list \<times> totals" where
  "getOrMakeWeekMap ws wk =
     (case findWeek ws wk of
        Some w \<Rightarrow> (ws, wmap w)
      | None \<Rightarrow> (ws @ [emptyWeekState wk], []))"

text \<open>The map that \<^verbatim>\<open>getOrMakeWeekMap\<close> returned is the bucket's own object: a
  \<^verbatim>\<open>set\<close> on it changes the first bucket of that week.\<close>

fun updateWeekMap :: "week_state list \<Rightarrow> int \<Rightarrow> (totals \<Rightarrow> totals) \<Rightarrow> week_state list" where
  "updateWeekMap [] wk f = []"
| "updateWeekMap (w # ws) wk f =
     (if weekMs w = wk then w\<lparr>wmap := f (wmap w)\<rparr> # ws else w # updateWeekMap ws wk f)"

text \<open>\<^verbatim>\<open>const m = getOrMakeWeekMap(state, wk); m.set(user, (m.get(user) || 0n) + points)\<close>\<close>

definition addPoints :: "week_state list \<Rightarrow> int \<Rightarrow> string \<Rightarrow> int \<Rightarrow> week_state list" where
  "addPoints ws wk user points =
     (case getOrMakeWeekMap ws wk of
        (ws', m) \<Rightarrow>
          let old = (case mapGet m user of None \<Rightarrow> 0 | Some v \<Rightarrow> v)
          in updateWeekMap ws' wk (\<lambda>m'. mapSet m' user (old + points)))"

text \<open>
  The body of the merge loop, the same text in \<^verbatim>\<open>backfillTwoWeeks\<close> and in
  \<^verbatim>\<open>incrementalUpdate\<close>: decode, skip a \<open>null\<close>, skip a week that is neither of
  the two tracked ones, add the points otherwise. An exception of the decoder leaves the
  loop (and the function).
\<close>

definition mergeLog :: "int \<Rightarrow> int \<Rightarrow> week_state list \<Rightarrow> log_record \<Rightarrow> js_error + week_state list" where
  "mergeLog curWeekMs prevWeekMs ws l =
     (let user = addrFromTopic (topic1 l)
      in case extractBytesParamFromLogData (data l) of
           Inl e \<Rightarrow> Inl e
         | Inr payload \<Rightarrow>
            (case decodePointsAndWeek payload of
               Inl e \<Rightarrow> Inl e
             | Inr None \<Rightarrow> Inr ws
             | Inr (Some (points, week)) \<Rightarrow>
                 let wk = NumberOfBigInt week
                 in if wk \<noteq> curWeekMs \<and> wk \<noteq> prevWeekMs then Inr ws
                    else Inr (addPoints ws wk user points)))"

fun mergeLogs :: "int \<Rightarrow> int \<Rightarrow> week_state list \<Rightarrow> log_record list \<Rightarrow> js_error + week_state list" where
  "mergeLogs curWeekMs prevWeekMs ws [] = Inr ws"
| "mergeLogs curWeekMs prevWeekMs ws (l # ls) =
     (case mergeLog curWeekMs prevWeekMs ws l of
        Inl e \<Rightarrow> Inl e
      | Inr ws' \<Rightarrow> mergeLogs curWeekMs prevWeekMs ws' ls)"

text \<open>
  \<^verbatim>\<open>weekStartUtcMs(now)\<close>: midnight UTC of the Monday of the week of \<open>now\<close>. Day 0 of the
  epoch is a Thursday (\<^verbatim>\<open>getUTCDay() = 4\<close>). The calendar round trip through
  \<^verbatim>\<open>Date.UTC\<close> is the identity on days for the dates a clock returns (years from 100 on,
  inside the range of \<^verbatim>\<open>Date\<close>), so the day arithmetic is done on the day number.
\<close>

definition weekStartUtcMs :: "int \<Rightarrow> int" where
  "weekStartUtcMs now =
     (let days = now div 86400000;
          day = (days + 4) mod 7;
          diffToMon = (day + 6) mod 7
      in (days - diffToMon) * 86400000)"


section \<open>Chain log source: the chunked RPC scan\<close>

text \<open>
  The calls that leave the process, in the order they are made. An \<^verbatim>\<open>eth_getLogs\<close>
  call (through \<^verbatim>\<open>withRpcRotation\<close>) is recorded with its block range and its
  outcome: the logs, or the error that the rotation gave up with.
\<close>

datatype call =
    EthBlockNumber
  | EthGetLogs int int "js_error + log_record list"
  | EthGetBlockByNumber int
  | BaseScanGetLogs int int
  | BaseScanBlockByTime int

text \<open>A computation: the calls it made and, when it came back, what it threw or returned.
  \<open>None\<close> stands for a loop that was still running when the modelled answers ran out.\<close>

type_synonym 'a run = "call list \<times> (js_error + 'a) option"

definition emit :: "call \<Rightarrow> 'a run \<Rightarrow> 'a run" where
  "emit c r = (c # fst r, snd r)"

text \<open>\<^verbatim>\<open>s.includes(sub)\<close>\<close>

fun includesStr :: "string \<Rightarrow> string \<Rightarrow> bool" where
  "includesStr [] sub = (sub = [])"
| "includesStr (c # s) sub = (take (length sub) (c # s) = sub \<or> includesStr s sub)"

definition isRateLimitish :: "int option \<Rightarrow> string \<Rightarrow> bool" where
  "isRateLimitish status body =
     (let t = toLowerCase body
      in status = Some 429 \<or> includesStr t ''rate limit'' \<or> includesStr t ''too many requests''
         \<or> includesStr t ''over rate limit'')"

text \<open>BigInt division by \<open>2n\<close> truncates towards zero.\<close>

definition bigintHalf :: "int \<Rightarrow> int" where
  "bigintHalf a = (if a < 0 then - ((- a) div 2) else a div 2)"

text \<open>\<^verbatim>\<open>step = step / 2n; if (step < hardMinStep) step = hardMinStep;\<close>\<close>

definition shrinkStep :: "int \<Rightarrow> int \<Rightarrow> int" where
  "shrinkStep step hardMinStep =
     (let s = bigintHalf step in if s < hardMinStep then hardMinStep else s)"

text \<open>A deadline is a number or \<^verbatim>\<open>undefined\<close>; \<open>0\<close> is as falsy as \<^verbatim>\<open>undefined\<close>.
  \<^verbatim>\<open>deadlineMs && nowMs() > deadlineMs\<close>:\<close>

definition deadlinePassed :: "int option \<Rightarrow> int \<Rightarrow> bool" where
  "deadlinePassed deadlineMs now =
     (case deadlineMs of None \<Rightarrow> False | Some d \<Rightarrow> d \<noteq> 0 \<and> now > d)"

text \<open>What the world answers during one iteration of the scan: the clock reading of the
  deadline check, and the outcome of the \<^verbatim>\<open>eth_getLogs\<close> call for the range asked.\<close>

type_synonym tick = "int \<times> (int \<Rightarrow> int \<Rightarrow> js_error + log_record list)"

record fetch_result =
  logs :: "log_record list"
  lastScannedBlock :: int
  complete :: bool

definition isFreeTierMsg :: "string \<Rightarrow> bool" where
  "isFreeTierMsg msg =
     (includesStr msg ''freetier'' \<or> includesStr msg ''not supported on freetier''
      \<or> includesStr msg ''ranges over 10000'')"

definition isRangeTooLargeMsg :: "string \<Rightarrow> bool" where
  "isRangeTooLargeMsg msg =
     (includesStr msg ''range is too large'' \<or> includesStr msg ''m...1k'' \<or> includesStr msg ''limit''
      \<or> includesStr msg ''block range'')"

definition isTransient :: "js_error \<Rightarrow> string \<Rightarrow> bool" where
  "isTransient e msg =
     (isRateLimitish (httpStatus e) (bodyText e) \<or> includesStr msg ''timeout''
      \<or> includesStr msg ''fetch failed'')"

text \<open>
  The \<^verbatim>\<open>for\<close> loop of \<^verbatim>\<open>fetchLogsRange\<close>, one iteration for each tick. The loop
  variables are \<open>from\<close>, \<open>step\<close>, \<open>logsOut\<close> and \<open>lastScanned\<close>.
\<close>

fun fetchLogsLoop ::
  "int \<Rightarrow> int \<Rightarrow> int option \<Rightarrow> tick list \<Rightarrow> int \<Rightarrow> int \<Rightarrow> log_record list \<Rightarrow> int
   \<Rightarrow> fetch_result run" where
  "fetchLogsLoop toBlock hardMinStep deadlineMs [] from step logsOut lastScanned =
     (if from \<le> toBlock then ([], None)
      else ([], Some (Inr \<lparr>logs = logsOut, lastScannedBlock = lastScanned, complete = True\<rparr>)))"
| "fetchLogsLoop toBlock hardMinStep deadlineMs ((now, rpc) # ticks) from step logsOut lastScanned =
     (if \<not> from \<le> toBlock
      then ([], Some (Inr \<lparr>logs = logsOut, lastScannedBlock = lastScanned, complete = True\<rparr>))
      else if deadlinePassed deadlineMs now
      then ([], Some (Inr \<lparr>logs = logsOut, lastScannedBlock = lastScanned, complete = False\<rparr>))
      else
        let to = (if from + step > toBlock then toBlock else from + step)
        in case rpc from to of
             Inr ls \<Rightarrow>
               emit (EthGetLogs from to (Inr ls))
                 (fetchLogsLoop toBlock hardMinStep deadlineMs ticks (to + 1) step (logsOut @ ls) to)
           | Inl e \<Rightarrow>
               let msg = toLowerCase (message e)
               in if isFreeTierMsg msg then ([EthGetLogs from to (Inl e)], Some (Inl e))
                  else if isRangeTooLargeMsg msg
                  then emit (EthGetLogs from to (Inl e))
                         (fetchLogsLoop toBlock hardMinStep deadlineMs ticks from
                            (shrinkStep step hardMinStep) logsOut lastScanned)
                  else if isTransient e msg
                  then emit (EthGetLogs from to (Inl e))
                         (fetchLogsLoop toBlock hardMinStep deadlineMs ticks from step logsOut
                            lastScanned)
                  else emit (EthGetLogs from to (Inl e))
                         (fetchLogsLoop toBlock hardMinStep deadlineMs ticks from
                            (shrinkStep step hardMinStep) logsOut lastScanned))"

definition fetchLogsRange ::
  "int \<Rightarrow> int \<Rightarrow> int \<Rightarrow> int \<Rightarrow> int option \<Rightarrow> tick list \<Rightarrow> fetch_result run" where
  "fetchLogsRange fromBlock toBlock stepInitial hardMinStep deadlineMs ticks =
     fetchLogsLoop toBlock hardMinStep deadlineMs ticks fromBlock stepInitial []
       (if fromBlock > 0 then fromBlock - 1 else 0)"

text \<open>
  Reading a trace of the scan: the chunks whose \<^verbatim>\<open>eth_getLogs\<close> call succeeded (the fully
  scanned chunks), whether chunks follow one another from a block on without gap or
  overlap, and the upper boundary of the last of them.
\<close>

fun scannedChunks :: "call list \<Rightarrow> (int \<times> int \<times> log_record list) list" where
  "scannedChunks [] = []"
| "scannedChunks (EthGetLogs f t (Inr ls) # cs) = (f, t, ls) # scannedChunks cs"
| "scannedChunks (c # cs) = scannedChunks cs"

fun chunksFrom :: "int \<Rightarrow> (int \<times> int \<times> log_record list) list \<Rightarrow> bool" where
  "chunksFrom b [] = True"
| "chunksFrom b ((f, t, ls) # cs) = (f = b \<and> f \<le> t \<and> chunksFrom (t + 1) cs)"

fun lastBoundary :: "int \<Rightarrow> (int \<times> int \<times> log_record list) list \<Rightarrow> int" where
  "lastBoundary b [] = b"
| "lastBoundary b ((f, t, ls) # cs) = lastBoundary t cs"

text \<open>The ranges a trace asked \<^verbatim>\<open>eth_getLogs\<close> and the explorer for.\<close>

fun requestedRanges :: "call list \<Rightarrow> (int \<times> int) list" where
  "requestedRanges [] = []"
| "requestedRanges (EthGetLogs f t r # cs) = (f, t) # requestedRanges cs"
| "requestedRanges (BaseScanGetLogs f t # cs) = (f, t) # requestedRanges cs"
| "requestedRanges (c # cs) = requestedRanges cs"

text \<open>Names for two values of an iteration, used to state its cases: the upper end of the
  chunk asked for, and the step after a failed call that is retried.\<close>

definition chunkEnd :: "int \<Rightarrow> int \<Rightarrow> int \<Rightarrow> int" where
  "chunkEnd from step toBlock = (if from + step > toBlock then toBlock else from + step)"

definition retryStep :: "js_error \<Rightarrow> int \<Rightarrow> int \<Rightarrow> int" where
  "retryStep e step hardMinStep =
     (let msg = toLowerCase (message e)
      in if isRangeTooLargeMsg msg then shrinkStep step hardMinStep
         else if isTransient e msg then step
         else shrinkStep step hardMinStep)"

text \<open>The logs of a list of chunks, in order.\<close>

definition chunkLogs :: "(int \<times> int \<times> log_record list) list \<Rightarrow> log_record list" where
  "chunkLogs cs = concat (map (\<lambda>c. snd (snd c)) cs)"

section \<open>Block-time resolver\<close>

text \<open>
  \<^verbatim>\<open>findFirstBlockAtOrAfterTsSec\<close>: binary search for the smallest block whose timestamp
  is at least the target. The first argument stands for \<^verbatim>\<open>getBlockTimestampSec\<close>, what
  the node answers for a block number (or the error the call throws).
\<close>

function findFirstLoop ::
  "(int \<Rightarrow> js_error + int) \<Rightarrow> int \<Rightarrow> int \<Rightarrow> int \<Rightarrow> int \<Rightarrow> call list \<times> (js_error + int)" where
  "findFirstLoop getTs targetTsSec lo hi ans =
     (if lo \<le> hi then
        let mid = bigintHalf (lo + hi)
        in case getTs mid of
             Inl e \<Rightarrow> ([EthGetBlockByNumber mid], Inl e)
           | Inr ts \<Rightarrow>
               if ts \<ge> targetTsSec then
                 (if mid = 0 then ([EthGetBlockByNumber mid], Inr mid)
                  else case findFirstLoop getTs targetTsSec lo (mid - 1) mid of
                         (tr, res) \<Rightarrow> (EthGetBlockByNumber mid # tr, res))
               else case findFirstLoop getTs targetTsSec (mid + 1) hi ans of
                      (tr, res) \<Rightarrow> (EthGetBlockByNumber mid # tr, res)
      else ([], Inr ans))"
  by pat_completeness auto
termination
  by (relation "measure (\<lambda>(getTs, targetTsSec, lo, hi, ans). nat (hi - lo + 1))")
    (auto simp: bigintHalf_def)

definition findFirstBlockAtOrAfterTsSec ::
  "(int \<Rightarrow> js_error + int) \<Rightarrow> int \<Rightarrow> int \<Rightarrow> call list \<times> (js_error + int)" where
  "findFirstBlockAtOrAfterTsSec getTs targetTsSec latestBlock =
     findFirstLoop getTs targetTsSec 0 latestBlock latestBlock"

section \<open>Aggregation state machine (\<^verbatim>\<open>api/leaderboard.js\<close>)\<close>

definition STATE_SCHEMA_VERSION :: int where
  "STATE_SCHEMA_VERSION = 4"

text \<open>The state object, as \<^verbatim>\<open>deserializeState\<close> and \<^verbatim>\<open>backfillTwoWeeks\<close> build it.
  A block number that is \<^verbatim>\<open>null\<close> is \<open>None\<close>.\<close>

record agg_state =
  schemaVersion :: int
  backfillFromBlock :: "int option"
  anchorTsSec :: int
  currentWeekMs :: int
  lastWeekMs :: int
  lastProcessedBlock :: "int option"
  weeks :: "week_state list"
  updatedAt :: int

text \<open>
  What the world answers to one invocation. Each field is the outcome of one awaited call
  (or of each iteration of a loop of calls):
  \<^item> \<open>nowStart\<close>: \<^verbatim>\<open>nowMs()\<close> on entry of \<^verbatim>\<open>incrementalUpdate\<close>;
  \<^item> \<open>latestBlock\<close>: \<^verbatim>\<open>getLatestBlock()\<close> in \<^verbatim>\<open>incrementalUpdate\<close>, and
    \<open>latestBlock2\<close> the same call in \<^verbatim>\<open>backfillTwoWeeks\<close>;
  \<^item> \<open>blockByTime\<close>: \<^verbatim>\<open>getBlockByTimeBaseScan(ts, "before")\<close>;
  \<^item> \<open>blockTimestamp\<close>: \<^verbatim>\<open>getBlockTimestampSec(block)\<close>;
  \<^item> \<open>nowInit\<close>: \<^verbatim>\<open>nowMs()\<close> when \<^verbatim>\<open>backfillTwoWeeks\<close> creates its state;
  \<^item> \<open>baseScanLogs\<close>: \<^verbatim>\<open>fetchLogsViaBaseScan(from, to, deadlineMs)\<close>, \<open>None\<close> when
    its paging loop does not come back;
  \<^item> \<open>rpcTicks\<close>: the iterations of \<^verbatim>\<open>fetchLogsRange\<close> (one call of it is made in an
    invocation, at most);
  \<^item> \<open>nowEnd\<close>: the last \<^verbatim>\<open>nowMs()\<close>, stored in \<^verbatim>\<open>updatedAt\<close>.
\<close>

record world =
  nowStart :: int
  latestBlock :: "js_error + int"
  latestBlock2 :: "js_error + int"
  blockByTime :: "int \<Rightarrow> js_error + int"
  blockTimestamp :: "int \<Rightarrow> js_error + int"
  nowInit :: int
  baseScanLogs :: "int \<Rightarrow> int \<Rightarrow> (js_error + log_record list) option"
  rpcTicks :: "tick list"
  nowEnd :: int

text \<open>A BigInt or \<^verbatim>\<open>null\<close> in a condition: \<^verbatim>\<open>null\<close> and \<^verbatim>\<open>0n\<close> are falsy.\<close>

definition bigTruthy :: "int option \<Rightarrow> bool" where
  "bigTruthy b = (case b of None \<Rightarrow> False | Some n \<Rightarrow> n \<noteq> 0)"

text \<open>
  The start block of the backfill: the explorer's block for the anchor time; failing
  that, the binary search less a buffer of 2000 blocks; failing that, a window of 1500000
  blocks before the latest. None of the three throws out of \<^verbatim>\<open>backfillTwoWeeks\<close>.
\<close>

definition resolveFromBlock :: "world \<Rightarrow> int \<Rightarrow> int \<Rightarrow> call list \<times> int" where
  "resolveFromBlock w anchor latest =
     (case blockByTime w anchor of
        Inr b \<Rightarrow> ([BaseScanBlockByTime anchor], b)
      | Inl e \<Rightarrow>
         (case findFirstBlockAtOrAfterTsSec (blockTimestamp w) anchor latest of
            (tr, Inr b) \<Rightarrow> (BaseScanBlockByTime anchor # tr, if b > 2000 then b - 2000 else b)
          | (tr, Inl e') \<Rightarrow>
              (BaseScanBlockByTime anchor # tr,
               if latest > 1500000 then latest - 1500000 else 0)))"

text \<open>The \<^verbatim>\<open>try\<close>/\<^verbatim>\<open>catch\<close> of the backfill: the explorer first; when it throws (its
  deadline included), the chunked RPC scan, which can resume.\<close>

definition backfillScan :: "world \<Rightarrow> int \<Rightarrow> int \<Rightarrow> int option \<Rightarrow> fetch_result run" where
  "backfillScan w fromBlock latest deadlineMs =
     (case baseScanLogs w fromBlock latest of
        None \<Rightarrow> ([BaseScanGetLogs fromBlock latest], None)
      | Some (Inr ls) \<Rightarrow>
          ([BaseScanGetLogs fromBlock latest],
           Some (Inr \<lparr>logs = ls, lastScannedBlock = latest, complete = True\<rparr>))
      | Some (Inl e) \<Rightarrow>
          emit (BaseScanGetLogs fromBlock latest)
            (fetchLogsRange fromBlock latest 8000 900 deadlineMs (rpcTicks w)))"

definition backfillTwoWeeks :: "world \<Rightarrow> int \<Rightarrow> int option \<Rightarrow> agg_state run" where
  "backfillTwoWeeks w now deadlineMs =
     (let curWeekMs = weekStartUtcMs now;
          prevWeekMs = curWeekMs - 7 * 24 * 60 * 60 * 1000
      in case latestBlock2 w of
           Inl e \<Rightarrow> ([EthBlockNumber], Some (Inl e))
         | Inr latest \<Rightarrow>
            let anchor = prevWeekMs div 1000 - 3600
            in case resolveFromBlock w anchor latest of
                 (tr1, fromBlock) \<Rightarrow>
                   let state = \<lparr>schemaVersion = STATE_SCHEMA_VERSION,
                                backfillFromBlock = Some fromBlock,
                                anchorTsSec = anchor,
                                currentWeekMs = curWeekMs,
                                lastWeekMs = prevWeekMs,
                                lastProcessedBlock = None,
                                weeks = [emptyWeekState curWeekMs, emptyWeekState prevWeekMs],
                                updatedAt = nowInit w\<rparr>
                   in case backfillScan w fromBlock latest deadlineMs of
                        (tr2, None) \<Rightarrow> (EthBlockNumber # tr1 @ tr2, None)
                      | (tr2, Some (Inl e)) \<Rightarrow> (EthBlockNumber # tr1 @ tr2, Some (Inl e))
                      | (tr2, Some (Inr progress)) \<Rightarrow>
                         (case mergeLogs curWeekMs prevWeekMs (weeks state) (logs progress) of
                            Inl e \<Rightarrow> (EthBlockNumber # tr1 @ tr2, Some (Inl e))
                          | Inr ws \<Rightarrow>
                             (EthBlockNumber # tr1 @ tr2,
                              Some (Inr (state
                                \<lparr>weeks := map (\<lambda>wk. wk\<lparr>wmap := pruneToTop (wmap wk) PRUNE_KEEP\<rparr>) ws,
                                 lastProcessedBlock :=
                                   Some (if complete progress then latest
                                         else lastScannedBlock progress),
                                 updatedAt := nowEnd w\<rparr>)))))"

text \<open>The \<^verbatim>\<open>try\<close>/\<^verbatim>\<open>catch\<close> of the incremental update: the chunked RPC scan first; when
  it throws, the explorer, whose result counts as complete.\<close>

definition incrementalScan :: "world \<Rightarrow> int \<Rightarrow> int \<Rightarrow> int option \<Rightarrow> fetch_result run" where
  "incrementalScan w from latest deadlineMs =
     (case fetchLogsRange from latest 8000 900 deadlineMs (rpcTicks w) of
        (tr, None) \<Rightarrow> (tr, None)
      | (tr, Some (Inr r)) \<Rightarrow> (tr, Some (Inr r))
      | (tr, Some (Inl e)) \<Rightarrow>
         (case baseScanLogs w from latest of
            None \<Rightarrow> (tr @ [BaseScanGetLogs from latest], None)
          | Some (Inl e') \<Rightarrow> (tr @ [BaseScanGetLogs from latest], Some (Inl e'))
          | Some (Inr ls) \<Rightarrow>
              (tr @ [BaseScanGetLogs from latest],
               Some (Inr \<lparr>logs = ls, lastScannedBlock = latest, complete = True\<rparr>))))"

text \<open>\<^verbatim>\<open>incrementalUpdate(existingState, deadlineMs)\<close>; \<open>None\<close> is a \<^verbatim>\<open>null\<close> state.\<close>

definition incrementalUpdate :: "world \<Rightarrow> agg_state option \<Rightarrow> int option \<Rightarrow> agg_state run" where
  "incrementalUpdate w existingState deadlineMs =
     (let now = nowStart w;
          curWeekMs = weekStartUtcMs now;
          prevWeekMs = curWeekMs - 7 * 24 * 60 * 60 * 1000
      in case latestBlock w of
           Inl e \<Rightarrow> ([EthBlockNumber], Some (Inl e))
         | Inr latest \<Rightarrow>
            emit EthBlockNumber
             (case existingState of
                None \<Rightarrow> backfillTwoWeeks w now deadlineMs
              | Some existing \<Rightarrow>
                 if \<not> bigTruthy (lastProcessedBlock existing)
                    \<or> currentWeekMs existing \<noteq> curWeekMs
                    \<or> schemaVersion existing < STATE_SCHEMA_VERSION
                 then backfillTwoWeeks w now deadlineMs
                 else
                   let state = existing\<lparr>currentWeekMs := curWeekMs, lastWeekMs := prevWeekMs\<rparr>;
                       from = (case lastProcessedBlock state of None \<Rightarrow> 0 | Some b \<Rightarrow> b) + 1
                   in if from > latest then ([], Some (Inr (state\<lparr>updatedAt := nowEnd w\<rparr>)))
                      else case incrementalScan w from latest deadlineMs of
                             (tr, None) \<Rightarrow> (tr, None)
                           | (tr, Some (Inl e)) \<Rightarrow> (tr, Some (Inl e))
                           | (tr, Some (Inr progress)) \<Rightarrow>
                              (case mergeLogs curWeekMs prevWeekMs (weeks state) (logs progress) of
                                 Inl e \<Rightarrow> (tr, Some (Inl e))
                               | Inr ws \<Rightarrow>
                                  (tr,
                                   Some (Inr (state
                                     \<lparr>weeks :=
                                        map (\<lambda>wk. \<lparr>weekMs = weekMs wk,
                                                   wmap = pruneToTop (wmap wk) PRUNE_KEEP\<rparr>)
                                          (filter (\<lambda>wk. weekMs wk = curWeekMs \<or> weekMs wk = prevWeekMs) ws),
                                      lastProcessedBlock :=
                                        Some (if complete progress then latest
                                              else lastScannedBlock progress),
                                      updatedAt := nowEnd w\<rparr>))))))"

text \<open>The states that \<^verbatim>\<open>incrementalUpdate\<close> reuses instead of backfilling: the negation
  of the condition of its first \<^verbatim>\<open>if\<close>, for a state that is not \<^verbatim>\<open>null\<close>.\<close>

definition reusable :: "world \<Rightarrow> agg_state \<Rightarrow> bool" where
  "reusable w s \<longleftrightarrow>
     bigTruthy (lastProcessedBlock s)
     \<and> currentWeekMs s = weekStartUtcMs (nowStart w)
     \<and> \<not> schemaVersion s < STATE_SCHEMA_VERSION"

text \<open>Example data for closed instances: a clock reading on Tuesday 2023-11-14 (the week
  starts at \<open>1699833600000\<close>), a node at block 500 that answers every log request with no
  logs, and a state of that week processed up to a given block.\<close>

definition exWorld :: "tick list \<Rightarrow> world" where
  "exWorld ticks =
     \<lparr>nowStart = 1700000000000, latestBlock = Inr 500, latestBlock2 = Inr 500,
      blockByTime = (\<lambda>t. Inr 100), blockTimestamp = (\<lambda>b. Inr 0), nowInit = 1700000000100,
      baseScanLogs = (\<lambda>f t. Some (Inr [])), rpcTicks = ticks, nowEnd = 1700000000900\<rparr>"

definition exState :: "int \<Rightarrow> int \<Rightarrow> agg_state" where
  "exState week block =
     \<lparr>schemaVersion = 4, backfillFromBlock = Some 100, anchorTsSec = 1699225200,
      currentWeekMs = week, lastWeekMs = week - 604800000,
      lastProcessedBlock = Some block,
      weeks = [\<lparr>weekMs = week, wmap = [(''0xaa'', 5)]\<rparr>,
               \<lparr>weekMs = week - 604800000, wmap = [(''0xbb'', 7)]\<rparr>],
      updatedAt = 1699999999000\<rparr>"

section \<open>The revision with the rollover snapshot (\<^verbatim>\<open>src/unnamed/part_001\<close>)\<close>

text \<open>
  The repository keeps another revision of the same file, without a schema version, whose
  \<^verbatim>\<open>incrementalUpdate\<close> rotates the buckets when the week advances by one. Its codec,
  maps, pruning and merge loop are the ones above, word for word; what differs is embedded
  here, with the suffix \<open>_p1\<close>: the scan returns the logs only (and stops silently at the
  deadline), the backfill starts a fixed window of blocks before the latest block, the
  cursor is always set to the latest block, and \<^verbatim>\<open>PRUNE_KEEP\<close> is 5000.
\<close>

definition PRUNE_KEEP_p1 :: nat where
  "PRUNE_KEEP_p1 = 5000"

definition isRangeTooLargeMsg_p1 :: "string \<Rightarrow> bool" where
  "isRangeTooLargeMsg_p1 msg =
     (includesStr msg ''range is too large'' \<or> includesStr msg ''max is 1k''
      \<or> includesStr msg ''limit'' \<or> includesStr msg ''block range'')"

fun fetchLogsLoop_p1 ::
  "int \<Rightarrow> int \<Rightarrow> int option \<Rightarrow> tick list \<Rightarrow> int \<Rightarrow> int \<Rightarrow> log_record list
   \<Rightarrow> (log_record list) run" where
  "fetchLogsLoop_p1 toBlock hardMinStep deadlineMs [] from step logsOut =
     (if from \<le> toBlock then ([], None) else ([], Some (Inr logsOut)))"
| "fetchLogsLoop_p1 toBlock hardMinStep deadlineMs ((now, rpc) # ticks) from step logsOut =
     (if \<not> from \<le> toBlock then ([], Some (Inr logsOut))
      else if deadlinePassed deadlineMs now then ([], Some (Inr logsOut))
      else
        let to = (if from + step > toBlock then toBlock else from + step)
        in case rpc from to of
             Inr ls \<Rightarrow>
               emit (EthGetLogs from to (Inr ls))
                 (fetchLogsLoop_p1 toBlock hardMinStep deadlineMs ticks (to + 1) step (logsOut @ ls))
           | Inl e \<Rightarrow>
               let msg = toLowerCase (message e)
               in if isFreeTierMsg msg then ([EthGetLogs from to (Inl e)], Some (Inl e))
                  else if isRangeTooLargeMsg_p1 msg
                  then emit (EthGetLogs from to (Inl e))
                         (fetchLogsLoop_p1 toBlock hardMinStep deadlineMs ticks from
                            (shrinkStep step hardMinStep) logsOut)
                  else if isTransient e msg
                  then emit (EthGetLogs from to (Inl e))
                         (fetchLogsLoop_p1 toBlock hardMinStep deadlineMs ticks from step logsOut)
                  else emit (EthGetLogs from to (Inl e))
                         (fetchLogsLoop_p1 toBlock hardMinStep deadlineMs ticks from
                            (shrinkStep step hardMinStep) logsOut))"

definition fetchLogsRange_p1 ::
  "int \<Rightarrow> int \<Rightarrow> int \<Rightarrow> int \<Rightarrow> int option \<Rightarrow> tick list \<Rightarrow> (log_record list) run" where
  "fetchLogsRange_p1 fromBlock toBlock stepInitial hardMinStep deadlineMs ticks =
     fetchLogsLoop_p1 toBlock hardMinStep deadlineMs ticks fromBlock stepInitial []"

record agg_state_p1 =
  currentWeekMs_p1 :: int
  lastWeekMs_p1 :: int
  lastProcessedBlock_p1 :: "int option"
  weeks_p1 :: "week_state list"
  updatedAt_p1 :: int

text \<open>The backfill reads the explorer first and falls back to the RPC scan.\<close>

definition backfillScan_p1 :: "world \<Rightarrow> int \<Rightarrow> int \<Rightarrow> int option \<Rightarrow> (log_record list) run" where
  "backfillScan_p1 w fromBlock latest deadlineMs =
     (case baseScanLogs w fromBlock latest of
        None \<Rightarrow> ([BaseScanGetLogs fromBlock latest], None)
      | Some (Inr ls) \<Rightarrow> ([BaseScanGetLogs fromBlock latest], Some (Inr ls))
      | Some (Inl e) \<Rightarrow>
          emit (BaseScanGetLogs fromBlock latest)
            (fetchLogsRange_p1 fromBlock latest 8000 900 deadlineMs (rpcTicks w)))"

definition backfillTwoWeeks_p1 :: "world \<Rightarrow> int \<Rightarrow> int option \<Rightarrow> agg_state_p1 run" where
  "backfillTwoWeeks_p1 w now deadlineMs =
     (let curWeekMs = weekStartUtcMs now;
          prevWeekMs = curWeekMs - 7 * 24 * 60 * 60 * 1000
      in case latestBlock2 w of
           Inl e \<Rightarrow> ([EthBlockNumber], Some (Inl e))
         | Inr latest \<Rightarrow>
            let fromBlock = (if latest > 1200000 then latest - 1200000 else 0);
                state = \<lparr>currentWeekMs_p1 = curWeekMs,
                         lastWeekMs_p1 = prevWeekMs,
                         lastProcessedBlock_p1 = None,
                         weeks_p1 = [emptyWeekState curWeekMs, emptyWeekState prevWeekMs],
                         updatedAt_p1 = nowInit w\<rparr>
            in case backfillScan_p1 w fromBlock latest deadlineMs of
                 (tr, None) \<Rightarrow> (EthBlockNumber # tr, None)
               | (tr, Some (Inl e)) \<Rightarrow> (EthBlockNumber # tr, Some (Inl e))
               | (tr, Some (Inr ls)) \<Rightarrow>
                  (case mergeLogs curWeekMs prevWeekMs (weeks_p1 state) ls of
                     Inl e \<Rightarrow> (EthBlockNumber # tr, Some (Inl e))
                   | Inr ws \<Rightarrow>
                      (EthBlockNumber # tr,
                       Some (Inr (state
                         \<lparr>weeks_p1 := map (\<lambda>wk. wk\<lparr>wmap := pruneToTop (wmap wk) PRUNE_KEEP_p1\<rparr>) ws,
                          lastProcessedBlock_p1 := Some latest,
                          updatedAt_p1 := nowEnd w\<rparr>)))))"

text \<open>The incremental update reads the RPC scan first and falls back to the explorer.\<close>

definition incrementalScan_p1 :: "world \<Rightarrow> int \<Rightarrow> int \<Rightarrow> int option \<Rightarrow> (log_record list) run" where
  "incrementalScan_p1 w from latest deadlineMs =
     (case fetchLogsRange_p1 from latest 8000 900 deadlineMs (rpcTicks w) of
        (tr, None) \<Rightarrow> (tr, None)
      | (tr, Some (Inr ls)) \<Rightarrow> (tr, Some (Inr ls))
      | (tr, Some (Inl e)) \<Rightarrow>
         (case baseScanLogs w from latest of
            None \<Rightarrow> (tr @ [BaseScanGetLogs from latest], None)
          | Some (Inl e') \<Rightarrow> (tr @ [BaseScanGetLogs from latest], Some (Inl e'))
          | Some (Inr ls) \<Rightarrow> (tr @ [BaseScanGetLogs from latest], Some (Inr ls))))"

text \<open>
  The week rollover of this revision: when the stored week is not the current one but the
  one before it, the old current map becomes the previous bucket and a fresh current
  bucket starts; any other stored week is backfilled.
\<close>

definition rolloverSnapshot_p1 :: "agg_state_p1 \<Rightarrow> int \<Rightarrow> int \<Rightarrow> agg_state_p1" where
  "rolloverSnapshot_p1 state curWeekMs prevWeekMs =
     (let oldCurrentMs = currentWeekMs_p1 state;
          oldCurrentMap = snd (getOrMakeWeekMap (weeks_p1 state) oldCurrentMs)
      in state\<lparr>currentWeekMs_p1 := curWeekMs,
               lastWeekMs_p1 := prevWeekMs,
               weeks_p1 := [\<lparr>weekMs = curWeekMs, wmap = []\<rparr>,
                            \<lparr>weekMs = prevWeekMs, wmap = oldCurrentMap\<rparr>]\<rparr>)"

text \<open>The part of \<^verbatim>\<open>incrementalUpdate\<close> after the week handling: catch up from the
  cursor to the latest block.\<close>

definition catchUp_p1 ::
  "world \<Rightarrow> agg_state_p1 \<Rightarrow> int \<Rightarrow> int \<Rightarrow> int \<Rightarrow> int option \<Rightarrow> agg_state_p1 run" where
  "catchUp_p1 w state curWeekMs prevWeekMs latest deadlineMs =
     (let from = (case lastProcessedBlock_p1 state of None \<Rightarrow> 0 | Some b \<Rightarrow> b) + 1
      in if from > latest then ([], Some (Inr (state\<lparr>updatedAt_p1 := nowEnd w\<rparr>)))
         else case incrementalScan_p1 w from latest deadlineMs of
                (tr, None) \<Rightarrow> (tr, None)
              | (tr, Some (Inl e)) \<Rightarrow> (tr, Some (Inl e))
              | (tr, Some (Inr ls)) \<Rightarrow>
                 (case mergeLogs curWeekMs prevWeekMs (weeks_p1 state) ls of
                    Inl e \<Rightarrow> (tr, Some (Inl e))
                  | Inr ws \<Rightarrow>
                     (tr,
                      Some (Inr (state
                        \<lparr>weeks_p1 :=
                           map (\<lambda>wk. \<lparr>weekMs = weekMs wk,
                                      wmap = pruneToTop (wmap wk) PRUNE_KEEP_p1\<rparr>)
                             (filter (\<lambda>wk. weekMs wk = curWeekMs \<or> weekMs wk = prevWeekMs) ws),
                         lastProcessedBlock_p1 := Some latest,
                         updatedAt_p1 := nowEnd w\<rparr>)))))"

definition incrementalUpdate_p1 ::
  "world \<Rightarrow> agg_state_p1 option \<Rightarrow> int option \<Rightarrow> agg_state_p1 run" where
  "incrementalUpdate_p1 w existingState deadlineMs =
     (let now = nowStart w;
          curWeekMs = weekStartUtcMs now;
          prevWeekMs = curWeekMs - 7 * 24 * 60 * 60 * 1000
      in case latestBlock w of
           Inl e \<Rightarrow> ([EthBlockNumber], Some (Inl e))
         | Inr latest \<Rightarrow>
            emit EthBlockNumber
             (case existingState of
                None \<Rightarrow> backfillTwoWeeks_p1 w now deadlineMs
              | Some state \<Rightarrow>
                 if \<not> bigTruthy (lastProcessedBlock_p1 state)
                 then backfillTwoWeeks_p1 w now deadlineMs
                 else if currentWeekMs_p1 state \<noteq> curWeekMs
                 then (if currentWeekMs_p1 state \<noteq> prevWeekMs
                       then backfillTwoWeeks_p1 w now deadlineMs
                       else catchUp_p1 w (rolloverSnapshot_p1 state curWeekMs prevWeekMs)
                              curWeekMs prevWeekMs latest deadlineMs)
                 else catchUp_p1 w
                        (state\<lparr>currentWeekMs_p1 := curWeekMs, lastWeekMs_p1 := prevWeekMs\<rparr>)
                        curWeekMs prevWeekMs latest deadlineMs))"

text \<open>Example state of this revision, for closed instances.\<close>

definition exState_p1 :: "int \<Rightarrow> int \<Rightarrow> agg_state_p1" where
  "exState_p1 week block =
     \<lparr>currentWeekMs_p1 = week, lastWeekMs_p1 = week - 604800000,
      lastProcessedBlock_p1 = Some block,
      weeks_p1 = [\<lparr>weekMs = week, wmap = [(''0xaa'', 5)]\<rparr>,
                  \<lparr>weekMs = week - 604800000, wmap = [(''0xbb'', 7)]\<rparr>],
      updatedAt_p1 = 1699999999000\<rparr>"

text \<open>Two logs that arrive after the cursor of the example state: 3 points for the
  address \<open>0xaa\<close> in the week 1699228800000 and 2 points for the address \<open>0xcc\<close> in the week
  after it; and the answers of a world whose RPC returns them in one chunk.\<close>

definition exRolloverLogs :: "log_record list" where
  "exRolloverLogs =
     [\<lparr>topic1 = Some ''0xaa'', data = Some (encodeLogData 3 1699228800000)\<rparr>,
      \<lparr>topic1 = Some ''0xcc'', data = Some (encodeLogData 2 1699833600000)\<rparr>]"

definition exRolloverWorld :: world where
  "exRolloverWorld = exWorld [(1700000000200, \<lambda>f t. Inr exRolloverLogs)]"

text \<open>The calls that resolve a block boundary from a time.\<close>

fun isTimeLookup :: "call \<Rightarrow> bool" where
  "isTimeLookup (BaseScanBlockByTime ts) = True"
| "isTimeLookup (EthGetBlockByNumber b) = True"
| "isTimeLookup c = False"

section \<open>Persistence adapter and response formatter\<close>

text \<open>Values that are stored and sent as JSON. An object keeps its properties in order.\<close>

datatype json =
    JNull
  | JBool bool
  | JNum int
  | JStr string
  | JArr "json list"
  | JObj "(string \<times> json) list"

text \<open>Reading a property: \<open>None\<close> when the value is no object or has no such property.\<close>

definition objGet :: "json \<Rightarrow> string \<Rightarrow> json option" where
  "objGet j k = (case j of JObj props \<Rightarrow> map_of props k | _ \<Rightarrow> None)"

definition objKeys :: "json \<Rightarrow> string list" where
  "objKeys j = (case j of JObj props \<Rightarrow> map fst props | _ \<Rightarrow> [])"

text \<open>\<^verbatim>\<open>b.toString()\<close> of a BigInt: its decimal digits.\<close>

definition digitChar :: "nat \<Rightarrow> char" where
  "digitChar d = ''0123456789'' ! d"

function natString :: "nat \<Rightarrow> string" where
  "natString n = (if n < 10 then [digitChar n] else natString (n div 10) @ [digitChar (n mod 10)])"
  by pat_completeness auto
termination
  by (relation "measure id") auto

definition bigintToString :: "int \<Rightarrow> string" where
  "bigintToString n = (if n < 0 then CHR ''-'' # natString (nat (- n)) else natString (nat n))"

text \<open>\<^verbatim>\<open>x ? x.toString() : null\<close> for a block number \<open>x\<close> (\<^verbatim>\<open>null\<close> and \<^verbatim>\<open>0n\<close> are falsy).\<close>

definition blockOrNull :: "int option \<Rightarrow> json" where
  "blockOrNull b = (if bigTruthy b then JStr (bigintToString (case b of None \<Rightarrow> 0 | Some n \<Rightarrow> n)) else JNull)"

definition serializeWeeks :: "week_state list \<Rightarrow> json" where
  "serializeWeeks ws =
     JArr (map (\<lambda>w. JObj [(''weekMs'', JNum (weekMs w)),
                          (''entries'',
                           JArr (map (\<lambda>e. JArr [JStr (fst e), JStr (bigintToString (snd e))])
                                  (wmap w)))]) ws)"

definition serializeState :: "agg_state \<Rightarrow> json" where
  "serializeState state =
     JObj [(''schemaVersion'',
            JNum (if schemaVersion state \<noteq> 0 then schemaVersion state else STATE_SCHEMA_VERSION)),
           (''backfillFromBlock'', blockOrNull (backfillFromBlock state)),
           (''anchorTsSec'', JNum (anchorTsSec state)),
           (''currentWeekMs'', JNum (currentWeekMs state)),
           (''lastWeekMs'', JNum (lastWeekMs state)),
           (''lastProcessedBlock'', blockOrNull (lastProcessedBlock state)),
           (''weeks'', serializeWeeks (weeks state)),
           (''updatedAt'', JNum (updatedAt state))]"

text \<open>\<^verbatim>\<open>state.weeks.find((x) => x.weekMs === weekMs)?.map || new Map()\<close>\<close>

definition weekMapOrEmpty :: "week_state list \<Rightarrow> int \<Rightarrow> totals" where
  "weekMapOrEmpty ws wk = (case findWeek ws wk of None \<Rightarrow> [] | Some w \<Rightarrow> wmap w)"

text \<open>\<^verbatim>\<open>sortMapToArray(m).slice(0, MAX_TOP)\<close>, before the points become strings.\<close>

definition topEntries :: "totals \<Rightarrow> (string \<times> int) list" where
  "topEntries m = take MAX_TOP (sortByTotalDesc m)"

text \<open>
  \<^verbatim>\<open>enrich\<close>: an entry \<^verbatim>\<open>{ address, points }\<close>, with a \<^verbatim>\<open>name\<close> when names are asked
  for, the lookup map is there and it knows the address. (A \<^verbatim>\<open>name\<close> that is
  \<^verbatim>\<open>undefined\<close> is no property of the JSON.) The lookup map is \<open>None\<close> for \<^verbatim>\<open>null\<close>.
\<close>

definition enrich :: "bool \<Rightarrow> (string \<times> string) list option \<Rightarrow> (string \<times> int) list \<Rightarrow> json" where
  "enrich includeNames fcMap arr =
     JArr (map (\<lambda>e.
        let it = [(''address'', JStr (fst e)), (''points'', JStr (bigintToString (snd e)))]
        in case fcMap of
             None \<Rightarrow> JObj it
           | Some names \<Rightarrow>
               if \<not> includeNames then JObj it
               else (case map_of names (toLowerCase (fst e)) of
                       None \<Rightarrow> JObj it
                     | Some u \<Rightarrow>
                         if u = [] then JObj it
                         else JObj (it @ [(''name'', JStr (u @ ''.farcaster.eth''))]))) arr)"

definition formatResponsePayload ::
  "agg_state \<Rightarrow> bool \<Rightarrow> (string \<times> string) list option \<Rightarrow> json" where
  "formatResponsePayload state includeNames fcMap =
     (let curMap = weekMapOrEmpty (weeks state) (currentWeekMs state);
          prevMap = weekMapOrEmpty (weeks state) (lastWeekMs state)
      in JObj [(''ok'', JBool True),
               (''weekStart'', JNum (currentWeekMs state)),
               (''prevWeekStart'', JNum (lastWeekMs state)),
               (''weekly'', enrich includeNames fcMap (topEntries curMap)),
               (''lastWeek'', enrich includeNames fcMap (topEntries prevMap)),
               (''meta'',
                JObj [(''schemaVersion'',
                       JNum (if schemaVersion state \<noteq> 0 then schemaVersion state
                             else STATE_SCHEMA_VERSION)),
                      (''weeklyUsers'', JNum (int (length curMap))),
                      (''lastWeekUsers'', JNum (int (length prevMap))),
                      (''lastProcessedBlock'', blockOrNull (lastProcessedBlock state)),
                      (''updatedAt'', JNum (updatedAt state))])])"

subsection \<open>The revision with two cursors (\<^verbatim>\<open>src/unnamed/part_002\<close>)\<close>

text \<open>
  A third revision of the file (schema version 5) keeps a cursor and a completeness flag
  for each bucket. Its state, \<^verbatim>\<open>serializeState\<close> and \<^verbatim>\<open>formatResponsePayload\<close> are
  embedded with the suffix \<open>_p2\<close>. \<open>storeKind\<close> stands for the configured store:
  \<open>None\<close> when there is none, its \<^verbatim>\<open>kind\<close> otherwise.
\<close>

definition STATE_SCHEMA_VERSION_p2 :: int where
  "STATE_SCHEMA_VERSION_p2 = 5"

record agg_state_p2 =
  schemaVersion_p2 :: int
  currentWeekMs_p2 :: int
  lastWeekMs_p2 :: int
  prevWeekFromBlock_p2 :: "int option"
  prevWeekToBlock_p2 :: "int option"
  curWeekFromBlock_p2 :: "int option"
  prevWeekProcessedBlock_p2 :: "int option"
  curWeekProcessedBlock_p2 :: "int option"
  latestBlock_p2 :: "int option"
  completePrevWeek_p2 :: bool
  completeCurWeek_p2 :: bool
  weeks_p2 :: "week_state list"
  updatedAt_p2 :: int

definition serializeState_p2 :: "agg_state_p2 \<Rightarrow> json" where
  "serializeState_p2 state =
     JObj [(''schemaVersion'',
            JNum (if schemaVersion_p2 state \<noteq> 0 then schemaVersion_p2 state
                  else STATE_SCHEMA_VERSION_p2)),
           (''currentWeekMs'', JNum (currentWeekMs_p2 state)),
           (''lastWeekMs'', JNum (lastWeekMs_p2 state)),
           (''prevWeekFromBlock'', blockOrNull (prevWeekFromBlock_p2 state)),
           (''prevWeekToBlock'', blockOrNull (prevWeekToBlock_p2 state)),
           (''curWeekFromBlock'', blockOrNull (curWeekFromBlock_p2 state)),
           (''prevWeekProcessedBlock'', blockOrNull (prevWeekProcessedBlock_p2 state)),
           (''curWeekProcessedBlock'', blockOrNull (curWeekProcessedBlock_p2 state)),
           (''latestBlock'', blockOrNull (latestBlock_p2 state)),
           (''completePrevWeek'', JBool (completePrevWeek_p2 state)),
           (''completeCurWeek'', JBool (completeCurWeek_p2 state)),
           (''weeks'', serializeWeeks (weeks_p2 state)),
           (''updatedAt'', JNum (updatedAt_p2 state))]"

definition formatResponsePayload_p2 ::
  "string option \<Rightarrow> agg_state_p2 \<Rightarrow> bool \<Rightarrow> (string \<times> string) list option \<Rightarrow> json" where
  "formatResponsePayload_p2 storeKind state includeNames fcMap =
     (let curMap = weekMapOrEmpty (weeks_p2 state) (currentWeekMs_p2 state);
          prevMap = weekMapOrEmpty (weeks_p2 state) (lastWeekMs_p2 state)
      in JObj [(''ok'', JBool True),
               (''weekStart'', JNum (currentWeekMs_p2 state)),
               (''prevWeekStart'', JNum (lastWeekMs_p2 state)),
               (''weekly'', enrich includeNames fcMap (topEntries curMap)),
               (''lastWeek'', enrich includeNames fcMap (topEntries prevMap)),
               (''meta'',
                JObj [(''schemaVersion'',
                       JNum (if schemaVersion_p2 state \<noteq> 0 then schemaVersion_p2 state
                             else STATE_SCHEMA_VERSION_p2)),
                      (''weeklyUsers'', JNum (int (length curMap))),
                      (''lastWeekUsers'', JNum (int (length prevMap))),
                      (''latestBlock'', blockOrNull (latestBlock_p2 state)),
                      (''curWeekFromBlock'', blockOrNull (curWeekFromBlock_p2 state)),
                      (''prevWeekFromBlock'', blockOrNull (prevWeekFromBlock_p2 state)),
                      (''prevWeekToBlock'', blockOrNull (prevWeekToBlock_p2 state)),
                      (''curWeekProcessedBlock'', blockOrNull (curWeekProcessedBlock_p2 state)),
                      (''prevWeekProcessedBlock'', blockOrNull (prevWeekProcessedBlock_p2 state)),
                      (''completeCurWeek'', JBool (completeCurWeek_p2 state)),
                      (''completePrevWeek'', JBool (completePrevWeek_p2 state)),
                      (''complete'',
                       JBool (completeCurWeek_p2 state \<and> completePrevWeek_p2 state)),
                      (''store'',
                       JStr (case storeKind of
                               None \<Rightarrow> ''memory''
                             | Some k \<Rightarrow> if k = [] then ''kv'' else k)),
                      (''updatedAt'', JNum (updatedAt_p2 state))])])"

text \<open>The \<open>meta\<close> object of a payload.\<close>

definition metaOf :: "json \<Rightarrow> json" where
  "metaOf payload = (case objGet payload ''meta'' of None \<Rightarrow> JNull | Some m \<Rightarrow> m)"

section \<open>Aggregation state machine of the revision with two cursors (\<^verbatim>\<open>src/unnamed/part_002\<close>)\<close>

text \<open>
  An invocation of this revision can scan twice (the current week, then the previous one):
  the world has a clock reading between the two scans and the iterations of the second
  scan besides. \<open>blockByTime\<close> answers \<^verbatim>\<open>getBlockByTimeBaseScan(ts, "after")\<close> here.
\<close>

record world_p2 = world +
  nowMid :: int
  rpcTicks2 :: "tick list"

definition typeError :: js_error where
  "typeError = JsError ''Cannot mix BigInt and other types, use explicit conversions'' None []"

text \<open>A week boundary: the explorer's block for the time, or else the binary search (whose
  error is not caught).\<close>

definition resolveAfter_p2 ::
  "'a world_scheme \<Rightarrow> int \<Rightarrow> int \<Rightarrow> call list \<times> (js_error + int)" where
  "resolveAfter_p2 w ts latest =
     (case blockByTime w ts of
        Inr b \<Rightarrow> ([BaseScanBlockByTime ts], Inr b)
      | Inl e \<Rightarrow>
         (case findFirstBlockAtOrAfterTsSec (blockTimestamp w) ts latest of
            (tr, res) \<Rightarrow> (BaseScanBlockByTime ts # tr, res)))"

definition backfillTwoWeeks_p2 :: "'a world_scheme \<Rightarrow> int \<Rightarrow> call list \<times> (js_error + agg_state_p2)" where
  "backfillTwoWeeks_p2 w now =
     (let curWeekMs = weekStartUtcMs now;
          prevWeekMs = curWeekMs - 7 * 24 * 60 * 60 * 1000
      in case latestBlock2 w of
           Inl e \<Rightarrow> ([EthBlockNumber], Inl e)
         | Inr latest \<Rightarrow>
            (case resolveAfter_p2 w (curWeekMs div 1000) latest of
               (tr1, Inl e) \<Rightarrow> (EthBlockNumber # tr1, Inl e)
             | (tr1, Inr curFrom0) \<Rightarrow>
                (case resolveAfter_p2 w (prevWeekMs div 1000) latest of
                   (tr2, Inl e) \<Rightarrow> (EthBlockNumber # tr1 @ tr2, Inl e)
                 | (tr2, Inr prevFrom0) \<Rightarrow>
                    let curFrom = (if curFrom0 > 2000 then curFrom0 - 2000 else curFrom0);
                        prevFrom = (if prevFrom0 > 2000 then prevFrom0 - 2000 else prevFrom0);
                        prevTo = (if curFrom > 0 then curFrom - 1 else 0)
                    in (EthBlockNumber # tr1 @ tr2,
                        Inr \<lparr>schemaVersion_p2 = STATE_SCHEMA_VERSION_p2,
                             currentWeekMs_p2 = curWeekMs,
                             lastWeekMs_p2 = prevWeekMs,
                             prevWeekFromBlock_p2 = Some prevFrom,
                             prevWeekToBlock_p2 = Some prevTo,
                             curWeekFromBlock_p2 = Some curFrom,
                             prevWeekProcessedBlock_p2 =
                               Some (if prevFrom > 0 then prevFrom - 1 else 0),
                             curWeekProcessedBlock_p2 =
                               Some (if curFrom > 0 then curFrom - 1 else 0),
                             latestBlock_p2 = Some latest,
                             completePrevWeek_p2 = False,
                             completeCurWeek_p2 = False,
                             weeks_p2 = [emptyWeekState curWeekMs, emptyWeekState prevWeekMs],
                             updatedAt_p2 = nowInit w\<rparr>))))"

text \<open>\<^verbatim>\<open>applyLogsToWeekMap(state, weekMs, logs)\<close>: the bucket is fetched (or made) once, then
  each log of that very week is added to it.\<close>

definition applyLog_p2 :: "int \<Rightarrow> week_state list \<Rightarrow> log_record \<Rightarrow> js_error + week_state list" where
  "applyLog_p2 wk ws l =
     (let user = addrFromTopic (topic1 l)
      in case extractBytesParamFromLogData (data l) of
           Inl e \<Rightarrow> Inl e
         | Inr payload \<Rightarrow>
            (case decodePointsAndWeek payload of
               Inl e \<Rightarrow> Inl e
             | Inr None \<Rightarrow> Inr ws
             | Inr (Some (points, week)) \<Rightarrow>
                 if NumberOfBigInt week \<noteq> wk then Inr ws
                 else Inr (updateWeekMap ws wk
                             (\<lambda>m. mapSet m user
                                    ((case mapGet m user of None \<Rightarrow> 0 | Some v \<Rightarrow> v) + points)))))"

fun applyLogs_p2 :: "int \<Rightarrow> week_state list \<Rightarrow> log_record list \<Rightarrow> js_error + week_state list" where
  "applyLogs_p2 wk ws [] = Inr ws"
| "applyLogs_p2 wk ws (l # ls) =
     (case applyLog_p2 wk ws l of Inl e \<Rightarrow> Inl e | Inr ws' \<Rightarrow> applyLogs_p2 wk ws' ls)"

definition applyLogsToWeekMap :: "week_state list \<Rightarrow> int \<Rightarrow> log_record list \<Rightarrow> js_error + week_state list" where
  "applyLogsToWeekMap ws wk ls = applyLogs_p2 wk (fst (getOrMakeWeekMap ws wk)) ls"

definition scanSegment ::
  "'a world_scheme \<Rightarrow> tick list \<Rightarrow> int \<Rightarrow> int \<Rightarrow> int option \<Rightarrow> fetch_result run" where
  "scanSegment w ticks fromBlock toBlock deadlineMs =
     (if fromBlock > toBlock
      then ([], Some (Inr \<lparr>logs = [], lastScannedBlock = toBlock, complete = True\<rparr>))
      else case fetchLogsRange fromBlock toBlock 8000 900 deadlineMs ticks of
             (tr, None) \<Rightarrow> (tr, None)
           | (tr, Some (Inr r)) \<Rightarrow> (tr, Some (Inr r))
           | (tr, Some (Inl e)) \<Rightarrow>
              (case baseScanLogs w fromBlock toBlock of
                 None \<Rightarrow> (tr @ [BaseScanGetLogs fromBlock toBlock], None)
               | Some (Inl e') \<Rightarrow> (tr @ [BaseScanGetLogs fromBlock toBlock], Some (Inl e'))
               | Some (Inr ls) \<Rightarrow>
                   (tr @ [BaseScanGetLogs fromBlock toBlock],
                    Some (Inr \<lparr>logs = ls, lastScannedBlock = toBlock, complete = True\<rparr>))))"

text \<open>The state is rebuilt when it is absent, of an older schema, of another week, or lacks a
  block boundary.\<close>

definition needsBackfill_p2 :: "'a world_scheme \<Rightarrow> agg_state_p2 \<Rightarrow> bool" where
  "needsBackfill_p2 w state =
     (schemaVersion_p2 state < STATE_SCHEMA_VERSION_p2
      \<or> currentWeekMs_p2 state \<noteq> weekStartUtcMs (nowStart w)
      \<or> \<not> bigTruthy (curWeekFromBlock_p2 state)
      \<or> \<not> bigTruthy (prevWeekFromBlock_p2 state)
      \<or> \<not> bigTruthy (prevWeekToBlock_p2 state))"

text \<open>\<^verbatim>\<open>let state = existingState; if (!state || ...) state = await backfillTwoWeeks(...)\<close>\<close>

definition initialState_p2 ::
  "'a world_scheme \<Rightarrow> agg_state_p2 option \<Rightarrow> call list \<times> (js_error + agg_state_p2)" where
  "initialState_p2 w existingState =
     (case existingState of
        None \<Rightarrow> backfillTwoWeeks_p2 w (nowStart w)
      | Some state \<Rightarrow>
          if needsBackfill_p2 w state then backfillTwoWeeks_p2 w (nowStart w)
          else ([], Inr state))"

text \<open>Only the buckets of the two tracked weeks are kept; a missing one is added, empty.\<close>

definition keepTwoWeeks :: "int \<Rightarrow> int \<Rightarrow> week_state list \<Rightarrow> week_state list" where
  "keepTwoWeeks curWeekMs prevWeekMs ws =
     (let ws1 = map (\<lambda>wk. \<lparr>weekMs = weekMs wk, wmap = wmap wk\<rparr>)
                  (filter (\<lambda>wk. weekMs wk = curWeekMs \<or> weekMs wk = prevWeekMs) ws);
          ws2 = (if findWeek ws1 curWeekMs = None then ws1 @ [emptyWeekState curWeekMs] else ws1)
      in if findWeek ws2 prevWeekMs = None then ws2 @ [emptyWeekState prevWeekMs] else ws2)"

text \<open>
  \<^verbatim>\<open>(cursor ?? (fromBlock - 1n)) + 1n\<close>: the block after the cursor, or the first block of
  the range when the cursor is \<^verbatim>\<open>null\<close>; with both \<^verbatim>\<open>null\<close> the subtraction throws.
\<close>

definition nextBlock :: "int option \<Rightarrow> int option \<Rightarrow> js_error + int" where
  "nextBlock cursor fromBlock =
     (case cursor of
        Some b \<Rightarrow> Inr (b + 1)
      | None \<Rightarrow> (case fromBlock of Some f \<Rightarrow> Inr (f - 1 + 1) | None \<Rightarrow> Inl typeError))"

text \<open>Step 1: the current week, scanned up to the latest block unless it is complete.\<close>

definition advanceCurWeek ::
  "'a world_scheme \<Rightarrow> agg_state_p2 \<Rightarrow> int \<Rightarrow> int \<Rightarrow> int option \<Rightarrow> agg_state_p2 run" where
  "advanceCurWeek w state curWeekMs latest deadlineMs =
     (if completeCurWeek_p2 state then ([], Some (Inr state))
      else case nextBlock (curWeekProcessedBlock_p2 state) (curWeekFromBlock_p2 state) of
             Inl e \<Rightarrow> ([], Some (Inl e))
           | Inr from \<Rightarrow>
              (case scanSegment w (rpcTicks w) from latest deadlineMs of
                 (tr, None) \<Rightarrow> (tr, None)
               | (tr, Some (Inl e)) \<Rightarrow> (tr, Some (Inl e))
               | (tr, Some (Inr r)) \<Rightarrow>
                  (case applyLogsToWeekMap (weeks_p2 state) curWeekMs (logs r) of
                     Inl e \<Rightarrow> (tr, Some (Inl e))
                   | Inr ws \<Rightarrow>
                      (tr, Some (Inr (state
                         \<lparr>weeks_p2 := ws,
                          curWeekProcessedBlock_p2 :=
                            Some (if complete r then latest else lastScannedBlock r),
                          completeCurWeek_p2 := complete r\<rparr>))))))"

text \<open>
  Step 2: the previous week, up to its fixed upper block, when more than 250 ms of the
  budget are left and it is not complete. The upper block is a BigInt at this point (the
  guard or the backfill has set it); a \<^verbatim>\<open>null\<close> would compare as \<open>0\<close>.
\<close>

definition advancePrevWeek ::
  "world_p2 \<Rightarrow> agg_state_p2 \<Rightarrow> int \<Rightarrow> int option \<Rightarrow> agg_state_p2 run" where
  "advancePrevWeek w state prevWeekMs deadlineMs =
     (if (case deadlineMs of None \<Rightarrow> False | Some d \<Rightarrow> nowMid w < d - 250)
         \<and> \<not> completePrevWeek_p2 state
      then
        let prevTo = (case prevWeekToBlock_p2 state of None \<Rightarrow> 0 | Some b \<Rightarrow> b)
        in case nextBlock (prevWeekProcessedBlock_p2 state) (prevWeekFromBlock_p2 state) of
             Inl e \<Rightarrow> ([], Some (Inl e))
           | Inr from \<Rightarrow>
              (case scanSegment w (rpcTicks2 w) from prevTo deadlineMs of
                 (tr, None) \<Rightarrow> (tr, None)
               | (tr, Some (Inl e)) \<Rightarrow> (tr, Some (Inl e))
               | (tr, Some (Inr r)) \<Rightarrow>
                  (case applyLogsToWeekMap (weeks_p2 state) prevWeekMs (logs r) of
                     Inl e \<Rightarrow> (tr, Some (Inl e))
                   | Inr ws \<Rightarrow>
                      (tr, Some (Inr (state
                         \<lparr>weeks_p2 := ws,
                          prevWeekProcessedBlock_p2 :=
                            Some (if complete r then prevTo else lastScannedBlock r),
                          completePrevWeek_p2 := complete r\<rparr>)))))
      else ([], Some (Inr state)))"

definition incrementalUpdate_p2 ::
  "world_p2 \<Rightarrow> agg_state_p2 option \<Rightarrow> int option \<Rightarrow> agg_state_p2 run" where
  "incrementalUpdate_p2 w existingState deadlineMs =
     (let curWeekMs = weekStartUtcMs (nowStart w);
          prevWeekMs = curWeekMs - 7 * 24 * 60 * 60 * 1000
      in case latestBlock w of
           Inl e \<Rightarrow> ([EthBlockNumber], Some (Inl e))
         | Inr latest \<Rightarrow>
            (case initialState_p2 w existingState of
               (tr0, Inl e) \<Rightarrow> (EthBlockNumber # tr0, Some (Inl e))
             | (tr0, Inr state0) \<Rightarrow>
                let state1 = state0\<lparr>latestBlock_p2 := Some latest,
                                     currentWeekMs_p2 := curWeekMs,
                                     lastWeekMs_p2 := prevWeekMs,
                                     weeks_p2 := keepTwoWeeks curWeekMs prevWeekMs (weeks_p2 state0)\<rparr>
                in case advanceCurWeek w state1 curWeekMs latest deadlineMs of
                     (tr1, None) \<Rightarrow> (EthBlockNumber # tr0 @ tr1, None)
                   | (tr1, Some (Inl e)) \<Rightarrow> (EthBlockNumber # tr0 @ tr1, Some (Inl e))
                   | (tr1, Some (Inr state2)) \<Rightarrow>
                      (case advancePrevWeek w state2 prevWeekMs deadlineMs of
                         (tr2, None) \<Rightarrow> (EthBlockNumber # tr0 @ tr1 @ tr2, None)
                       | (tr2, Some (Inl e)) \<Rightarrow> (EthBlockNumber # tr0 @ tr1 @ tr2, Some (Inl e))
                       | (tr2, Some (Inr state3)) \<Rightarrow>
                           (EthBlockNumber # tr0 @ tr1 @ tr2,
                            Some (Inr (state3
                              \<lparr>weeks_p2 :=
                                 map (\<lambda>wk. \<lparr>weekMs = weekMs wk,
                                            wmap = pruneToTop (wmap wk) PRUNE_KEEP\<rparr>)
                                   (weeks_p2 state3),
                               updatedAt_p2 := nowEnd w\<rparr>))))))"

text \<open>Example data of this revision for closed instances: a state of the example week whose
  two cursors are behind, and a world whose budget is used up after the first scan.\<close>

definition exState_p2 :: agg_state_p2 where
  "exState_p2 =
     \<lparr>schemaVersion_p2 = 5, currentWeekMs_p2 = 1699833600000, lastWeekMs_p2 = 1699228800000,
      prevWeekFromBlock_p2 = Some 100, prevWeekToBlock_p2 = Some 299,
      curWeekFromBlock_p2 = Some 300,
      prevWeekProcessedBlock_p2 = Some 150, curWeekProcessedBlock_p2 = Some 400,
      latestBlock_p2 = Some 450, completePrevWeek_p2 = False, completeCurWeek_p2 = False,
      weeks_p2 = [\<lparr>weekMs = 1699833600000, wmap = [(''0xaa'', 5)]\<rparr>,
                  \<lparr>weekMs = 1699228800000, wmap = [(''0xbb'', 7)]\<rparr>],
      updatedAt_p2 = 1699999999000\<rparr>"

definition exWorld_p2 :: world_p2 where
  "exWorld_p2 =
     \<lparr>nowStart = 1700000000000, latestBlock = Inr 500, latestBlock2 = Inr 500,
      blockByTime = (\<lambda>t. Inr 100), blockTimestamp = (\<lambda>b. Inr 0), nowInit = 1700000000100,
      baseScanLogs = (\<lambda>f t. Some (Inr [])), rpcTicks = [(1700000000200, \<lambda>f t. Inr [])],
      nowEnd = 1700000008900, nowMid = 1700000008400, rpcTicks2 = []\<rparr>"

section \<open>Request orchestrator\<close>

definition MAX_SERVERLESS_MS :: int where
  "MAX_SERVERLESS_MS = 8500"

text \<open>
  What the handler does to the store and to the response, in order. \<open>ReleaseLock\<close> is a
  call of \<^verbatim>\<open>storeReleaseLock\<close> (which swallows its own errors); \<open>Send\<close> is
  \<^verbatim>\<open>res.status(code).send(JSON.stringify(body))\<close>.
\<close>

datatype effect =
    GetCached
  | AcquireLock
  | LoadState
  | Update "call list"
  | FetchNames
  | SaveState json
  | SaveResp json
  | ReleaseLock
  | Send int json

text \<open>
  What the store and the other services answer to one request:
  \<^item> \<open>started\<close>: \<^verbatim>\<open>nowMs()\<close> on entry;
  \<^item> \<open>cached1\<close>, \<open>cached2\<close>: the two calls of \<^verbatim>\<open>getCachedResponse()\<close> (\<open>None\<close> for a
    falsy value);
  \<^item> \<open>lockGranted\<close>: \<^verbatim>\<open>storeAcquireLock\<close>, which never throws;
  \<^item> \<open>storedState\<close>: \<^verbatim>\<open>deserializeState(await storeGetJson(KV_STATE_KEY))\<close>; only the
    read can throw, \<^verbatim>\<open>deserializeState\<close> catches its own errors;
  \<^item> \<open>updateWorld\<close>: the answers to \<^verbatim>\<open>incrementalUpdate\<close>;
  \<^item> \<open>nowNames\<close>: the clock before the name lookup, \<open>names\<close>: \<^verbatim>\<open>fetchNamesFromNeynar\<close>;
  \<^item> \<open>saveState\<close>, \<open>saveResp\<close>: the error of the two writes, if they throw.
\<close>

record handler_world =
  started :: int
  cached1 :: "js_error + json option"
  lockGranted :: bool
  cached2 :: "js_error + json option"
  storedState :: "js_error + agg_state option"
  updateWorld :: world
  nowNames :: int
  names :: "js_error + (string \<times> string) list"
  saveState :: "js_error option"
  saveResp :: "js_error option"

definition HINT :: string where
  "HINT = ''If this persists: (1) Connect your Upstash Redis to the Vercel project so KV_REST_API_* env vars are present, (2) set RPC_URL to a full-history Base RPC (Alchemy/Ankr/QuickNode or mainnet.base.org), and (3) optionally set BASESCAN_API_KEY to use BaseScan Logs API for backfills.''"

text \<open>The body of the \<^verbatim>\<open>catch\<close> block; \<^verbatim>\<open>String(e)\<close> of an error without message is
  its name.\<close>

definition errorEnvelope :: "js_error \<Rightarrow> json" where
  "errorEnvelope e =
     JObj [(''ok'', JBool False),
           (''error'', JStr (if message e \<noteq> [] then message e else ''Error'')),
           (''hint'', JStr HINT)]"

text \<open>Setting a property of an object: in place when it is there, at the end otherwise.\<close>

fun propSet :: "(string \<times> json) list \<Rightarrow> string \<Rightarrow> json \<Rightarrow> (string \<times> json) list" where
  "propSet [] k v = [(k, v)]"
| "propSet ((k', v') # ps) k v = (if k' = k then (k, v) # ps else (k', v') # propSet ps k v)"

definition propsOf :: "json option \<Rightarrow> (string \<times> json) list" where
  "propsOf j = (case j of Some (JObj ps) \<Rightarrow> ps | _ \<Rightarrow> [])"

text \<open>\<^verbatim>\<open>{ ...cached, meta: { ...cached.meta, busy: true } }\<close>\<close>

definition withBusy :: "json \<Rightarrow> json" where
  "withBusy cached =
     JObj (propSet (propsOf (Some cached)) ''meta''
             (JObj (propSet (propsOf (objGet cached ''meta'')) ''busy'' (JBool True))))"

text \<open>
  The \<^verbatim>\<open>try\<close> block of the handler, from the state read on: what it did, and the response
  it sent or the error that left the block. \<open>None\<close> when the update did not come back.
\<close>

definition refreshAndRespond ::
  "handler_world \<Rightarrow> bool \<Rightarrow> effect list \<times> (js_error + int \<times> json) option" where
  "refreshAndRespond hw includeNames =
     (let deadlineMs = started hw + MAX_SERVERLESS_MS
      in case storedState hw of
           Inl e \<Rightarrow> ([LoadState], Some (Inl e))
         | Inr state \<Rightarrow>
            (case incrementalUpdate (updateWorld hw) state (Some deadlineMs) of
               (tr, None) \<Rightarrow> ([LoadState, Update tr], None)
             | (tr, Some (Inl e)) \<Rightarrow> ([LoadState, Update tr], Some (Inl e))
             | (tr, Some (Inr updated)) \<Rightarrow>
                (let wantNames = (includeNames \<and> nowNames hw < deadlineMs - 500)
                 in case (if wantNames then names hw else Inr []) of
                      Inl e \<Rightarrow> ([LoadState, Update tr, FetchNames], Some (Inl e))
                    | Inr nameMap \<Rightarrow>
                       (let fcMap = (if wantNames then Some nameMap else None);
                            resp = formatResponsePayload updated includeNames fcMap;
                            pre = [LoadState, Update tr] @ (if wantNames then [FetchNames] else [])
                        in case saveState hw of
                             Some e \<Rightarrow> (pre @ [SaveState (serializeState updated)], Some (Inl e))
                           | None \<Rightarrow>
                              (case saveResp hw of
                                 Some e \<Rightarrow>
                                   (pre @ [SaveState (serializeState updated), SaveResp resp],
                                    Some (Inl e))
                               | None \<Rightarrow>
                                   (pre @ [SaveState (serializeState updated), SaveResp resp,
                                           ReleaseLock, Send 200 resp],
                                    Some (Inr (200, resp))))))))"

text \<open>The whole \<^verbatim>\<open>try\<close> block: the cached fast path, the lock, then the refresh.\<close>

definition handlerTry ::
  "handler_world \<Rightarrow> bool \<Rightarrow> bool \<Rightarrow> effect list \<times> (js_error + int \<times> json) option" where
  "handlerTry hw refresh includeNames =
     (let locked = (\<lambda>pre.
            if \<not> lockGranted hw \<and> \<not> refresh then
              (case cached2 hw of
                 Inl e \<Rightarrow> (pre @ [AcquireLock, GetCached], Some (Inl e))
               | Inr (Some cached) \<Rightarrow>
                   (pre @ [AcquireLock, GetCached, Send 200 (withBusy cached)],
                    Some (Inr (200, withBusy cached)))
               | Inr None \<Rightarrow>
                   (case refreshAndRespond hw includeNames of
                      (effs, res) \<Rightarrow> (pre @ [AcquireLock, GetCached] @ effs, res)))
            else (case refreshAndRespond hw includeNames of
                    (effs, res) \<Rightarrow> (pre @ [AcquireLock] @ effs, res)))
      in if \<not> refresh then
           (case cached1 hw of
              Inl e \<Rightarrow> ([GetCached], Some (Inl e))
            | Inr (Some cached) \<Rightarrow> ([GetCached, Send 200 cached], Some (Inr (200, cached)))
            | Inr None \<Rightarrow> locked [GetCached])
         else locked [])"

text \<open>
  The handler: the response of the \<^verbatim>\<open>try\<close> block, or, for an error thrown anywhere in
  it, the \<^verbatim>\<open>catch\<close> block: release the lock, then send the error envelope with status
  200. The result is the list of effects and the response (status and body).
\<close>

definition handler ::
  "handler_world \<Rightarrow> bool \<Rightarrow> bool \<Rightarrow> (effect list \<times> int \<times> json) option" where
  "handler hw refresh includeNames =
     (case handlerTry hw refresh includeNames of
        (effs, None) \<Rightarrow> None
      | (effs, Some (Inr resp)) \<Rightarrow> Some (effs, resp)
      | (effs, Some (Inl e)) \<Rightarrow>
          Some (effs @ [ReleaseLock, Send 200 (errorEnvelope e)], 200, errorEnvelope e))"

text \<open>
  The handler gets as far as reading the stored state when it serves no cached response:
  the request forces a refresh or the first look at the cache finds nothing, and then the
  lock is granted, or the request forces a refresh, or the second look at the cache finds
  nothing. \<open>effectsBeforeRefresh\<close> is what it has done by then.
\<close>

definition reachesRefresh :: "handler_world \<Rightarrow> bool \<Rightarrow> bool" where
  "reachesRefresh hw refresh \<longleftrightarrow>
     (refresh \<or> cached1 hw = Inr None)
     \<and> (lockGranted hw \<or> refresh \<or> cached2 hw = Inr None)"

definition effectsBeforeRefresh :: "handler_world \<Rightarrow> bool \<Rightarrow> effect list" where
  "effectsBeforeRefresh hw refresh =
     (if refresh then [] else [GetCached]) @ [AcquireLock]
     @ (if \<not> lockGranted hw \<and> \<not> refresh then [GetCached] else [])"

text \<open>Whether the names are looked up: \<^verbatim>\<open>includeNames && nowMs() < deadlineMs - 500\<close>.\<close>

definition wantsNames :: "handler_world \<Rightarrow> bool \<Rightarrow> bool" where
  "wantsNames hw includeNames \<longleftrightarrow>
     includeNames \<and> nowNames hw < started hw + MAX_SERVERLESS_MS - 500"

text \<open>Example answers of the store for closed instances: nothing cached, the lock granted,
  a stored state, and a state write that fails.\<close>

definition exHandlerWorld :: handler_world where
  "exHandlerWorld =
     \<lparr>started = 1700000000000, cached1 = Inr None, lockGranted = True, cached2 = Inr None,
      storedState = Inr (Some (exState 1699833600000 500)), updateWorld = exWorld [],
      nowNames = 1700000001000, names = Inr [],
      saveState = Some (JsError ''fetch failed'' None []), saveResp = None\<rparr>"

section \<open>Conversion of a BigInt to a Number\<close>

lemma NumberOfBigInt_small: "\<bar>b\<bar> < 2 ^ 53 \<Longrightarrow> NumberOfBigInt b = b"
  by (simp add: NumberOfBigInt_def Let_def nat_less_iff)

lemma NumberOfBigInt_large:
  assumes "2 ^ 53 \<le> \<bar>b\<bar>"
  shows "2 ^ 53 \<le> \<bar>NumberOfBigInt b\<bar>"
proof -
  define a where "a = nat \<bar>b\<bar>"
  define fl where "fl = floorlog 2 a"
  define sh where "sh = fl - 53"
  define q where "q = a div 2 ^ sh"
  define r where "r = a mod 2 ^ sh"
  define q' where "q' = (if 2 * r > 2 ^ sh \<or> (2 * r = 2 ^ sh \<and> odd q) then q + 1 else q)"
  have a53: "2 ^ 53 \<le> a" using assms by (simp add: a_def le_nat_iff)
  then have apos: "0 < a" by (simp add: order_less_le_trans [of 0 "2 ^ 53" a])
  have bnd: "2 ^ (fl - 1) \<le> a" "a < 2 ^ fl"
    using floorlog_bounds [of a 2] apos by (simp_all add: fl_def)
  have "(2::nat) ^ 53 < 2 ^ fl" using a53 bnd(2) by simp
  then have fl54: "53 < fl"
    using power_less_imp_less_exp [of 2 53 fl] by simp
  have "fl - 1 = 52 + sh" using fl54 by (simp add: sh_def)
  then have "(2::nat) ^ (fl - 1) = 2 ^ 52 * 2 ^ sh"
    by (simp only: power_add)
  then have "2 ^ 52 * 2 ^ sh \<le> a" using bnd(1) by simp
  then have "2 ^ 52 \<le> q"
    unfolding q_def by (simp add: less_eq_div_iff_mult_less_eq)
  then have "2 ^ 52 \<le> q'" by (simp add: q'_def)
  then have "2 ^ 52 * 2 ^ sh \<le> q' * 2 ^ sh" by simp
  moreover have "(2::nat) ^ 53 \<le> 2 ^ 52 * 2 ^ sh"
  proof -
    have "1 \<le> sh" using fl54 by (simp add: sh_def)
    then have "(2::nat) ^ 1 \<le> 2 ^ sh" by (rule power_increasing) simp
    then show ?thesis by simp
  qed
  ultimately have big: "2 ^ 53 \<le> q' * 2 ^ sh" by linarith
  have nz: "b \<noteq> 0" using assms by auto
  have "NumberOfBigInt b = sgn b * int (q' * 2 ^ sh)"
    using a53 unfolding NumberOfBigInt_def Let_def a_def [symmetric] fl_def [symmetric]
      sh_def [symmetric] q_def [symmetric] r_def [symmetric] q'_def [symmetric]
    by simp
  then have "\<bar>NumberOfBigInt b\<bar> = int (q' * 2 ^ sh)"
    using nz by (simp add: abs_mult)
  moreover have "int (2 ^ 53) \<le> int (q' * 2 ^ sh)"
    using big by (simp only: of_nat_le_iff)
  ultimately show ?thesis by simp
qed

lemma NumberOfBigInt_eq_iff:
  assumes "\<bar>c\<bar> < 2 ^ 53"
  shows "NumberOfBigInt w = c \<longleftrightarrow> w = c"
proof (cases "\<bar>w\<bar> < 2 ^ 53")
  case True
  then show ?thesis by (simp add: NumberOfBigInt_small)
next
  case False
  then have "2 ^ 53 \<le> \<bar>w\<bar>" by simp
  then have "2 ^ 53 \<le> \<bar>NumberOfBigInt w\<bar>" by (rule NumberOfBigInt_large)
  with assms False show ?thesis by auto
qed


section \<open>Properties of the event codec\<close>

lemma hexDigitChar_props:
  assumes "d < 16"
  shows "isHexDigit (hexDigitChar d)" and "hexDigitVal (hexDigitChar d) = d"
proof -
  from assms have "d \<in> {0, 1, 2, 3, 4, 5, 6, 7, 8, 9, 10, 11, 12, 13, 14, 15}" by simp arith
  then show "isHexDigit (hexDigitChar d)" and "hexDigitVal (hexDigitChar d) = d"
    by (auto simp: hexDigitChar_def isHexDigit_def hexDigitVal_def)
qed

lemma length_hexWord [simp]: "length (hexWord k n) = k"
  by (induction k arbitrary: n) auto

lemma hexWord_isHex: "list_all isHexDigit (hexWord k n)"
  by (induction k arbitrary: n) (auto simp: hexDigitChar_props)

lemma parseHex_snoc: "parseHex (s @ [c]) = parseHex s * 16 + hexDigitVal c"
  by (simp add: parseHex_def)

lemma parseHex_hexWord: "parseHex (hexWord k n) = n mod 16 ^ k"
proof (induction k arbitrary: n)
  case 0
  show ?case by (simp add: parseHex_def)
next
  case (Suc k)
  have "parseHex (hexWord (Suc k) n) = (n div 16 mod 16 ^ k) * 16 + n mod 16"
    by (simp add: parseHex_snoc Suc.IH hexDigitChar_props)
  also have "\<dots> = n mod 16 ^ Suc k"
    by (simp add: mod_mult2_eq mult.commute)
  finally show ?case .
qed

lemma hex_not_space: "isHexDigit c \<Longrightarrow> \<not> isStrWhiteSpace c"
  by (auto simp: isHexDigit_def isStrWhiteSpace_def Let_def)

lemma trim_hex: "list_all isHexDigit s \<Longrightarrow> rev (dropWhile isStrWhiteSpace (rev s)) = s"
proof (cases s rule: rev_cases)
  case Nil
  then show ?thesis by simp
next
  case (snoc ys y)
  assume "list_all isHexDigit s"
  with snoc have "\<not> isStrWhiteSpace y" by (simp add: hex_not_space)
  with snoc show ?thesis by simp
qed

lemma BigInt0x_hex:
  "s \<noteq> [] \<Longrightarrow> list_all isHexDigit s \<Longrightarrow> BigInt0x s = Inr (int (parseHex s))"
  by (simp add: BigInt0x_def trim_hex)


lemma length_slice: "e \<le> length s \<Longrightarrow> length (slice s b e) = e - b"
  by (simp add: slice_def)

lemma strip0x_prefixed [simp]: "strip0x (''0x'' @ s) = s"
  by (simp add: strip0x_def)

lemma strip0x_hex: "list_all isHexDigit s \<Longrightarrow> strip0x s = s"
  by (cases s; cases "tl s") (auto simp: strip0x_def isHexDigit_def)

lemma decode_stripped:
  assumes "strip0x s = a @ b" "length a = 64" "length b = 64"
    "list_all isHexDigit a" "list_all isHexDigit b"
  shows "decodePointsAndWeek (Some s) = Inr (Some (int (parseHex a), int (parseHex b)))"
proof -
  have ne: "a \<noteq> []" "b \<noteq> []" using assms by auto
  have s1: "slice (a @ b) 0 64 = a" and s2: "slice (a @ b) 64 128 = b"
    using assms by (simp_all add: slice_def)
  show ?thesis
    using assms ne by (simp add: decodePointsAndWeek_def s1 s2 BigInt0x_hex)
qed

lemma decode_words:
  assumes "length a = 64" "length b = 64" "list_all isHexDigit a" "list_all isHexDigit b"
  shows "decodePointsAndWeek (Some (''0x'' @ a @ b)) = Inr (Some (int (parseHex a), int (parseHex b)))"
    and "decodePointsAndWeek (Some (a @ b)) = Inr (Some (int (parseHex a), int (parseHex b)))"
proof -
  have "strip0x (''0x'' @ a @ b) = a @ b" by (rule strip0x_prefixed)
  then show "decodePointsAndWeek (Some (''0x'' @ a @ b)) = Inr (Some (int (parseHex a), int (parseHex b)))"
    using assms by (rule decode_stripped)
  have "strip0x (a @ b) = a @ b" using assms by (simp add: strip0x_hex)
  then show "decodePointsAndWeek (Some (a @ b)) = Inr (Some (int (parseHex a), int (parseHex b)))"
    using assms by (rule decode_stripped)
qed

lemma decode_payload:
  assumes "0 \<le> points" "points < 2 ^ 256" "0 \<le> week" "week < 2 ^ 256"
  shows "decodePointsAndWeek (Some (''0x'' @ encodePayload points week)) = Inr (Some (points, week))"
    and "decodePointsAndWeek (Some (encodePayload points week)) = Inr (Some (points, week))"
proof -
  have p: "int (parseHex (hexWord 64 (nat points))) = points"
  proof -
    have "nat points < 16 ^ 64" using assms by (simp add: nat_less_iff)
    then show ?thesis using assms by (simp add: parseHex_hexWord)
  qed
  have w: "int (parseHex (hexWord 64 (nat week))) = week"
  proof -
    have "nat week < 16 ^ 64" using assms by (simp add: nat_less_iff)
    then show ?thesis using assms by (simp add: parseHex_hexWord)
  qed
  show "decodePointsAndWeek (Some (''0x'' @ encodePayload points week)) = Inr (Some (points, week))"
    unfolding encodePayload_def
    using decode_words(1) [of "hexWord 64 (nat points)" "hexWord 64 (nat week)"] p w
    by (simp only: length_hexWord hexWord_isHex simp_thms)
  show "decodePointsAndWeek (Some (encodePayload points week)) = Inr (Some (points, week))"
    unfolding encodePayload_def
    using decode_words(2) [of "hexWord 64 (nat points)" "hexWord 64 (nat week)"] p w
    by (simp only: length_hexWord hexWord_isHex simp_thms)
qed

lemma extract_layoutA:
  assumes len: "length a = 64" "length b = 64" "length c = 128"
    and a: "BigInt0x a = Inr 32" and b: "BigInt0x b = Inr 64"
    and st: "strip0x s = a @ b @ c"
  shows "extractBytesParamFromLogData (Some s) = Inr (Some (''0x'' @ c))"
proof -
  have s1: "slice (a @ b @ c) 0 64 = a" and s2: "slice (a @ b @ c) 64 128 = b"
    and s3: "slice (a @ b @ c) 128 256 = c"
    using len by (simp_all add: slice_def)
  have n32: "NumberOfBigInt 32 = 32" and n64: "NumberOfBigInt 64 = 64"
    by (simp_all add: NumberOfBigInt_small)
  have tail: "extractTail (a @ b @ c) 64 128 = Inr (Some (''0x'' @ c))"
    using len by (simp add: extractTail_def s2 s3 b n64 Let_def)
  show ?thesis
    using len by (simp add: extractBytesParamFromLogData_def st s1 s2 a b n32 tail Let_def)
qed

lemma BigInt0x_hexWord:
  "n < 16 ^ 64 \<Longrightarrow> BigInt0x (hexWord 64 n) = Inr (int n)"
proof -
  assume "n < 16 ^ 64"
  moreover have "hexWord 64 n \<noteq> []"
    using length_hexWord [of 64 n] by (metis length_0_conv zero_neq_numeral)
  ultimately show ?thesis
    by (simp add: BigInt0x_hex hexWord_isHex parseHex_hexWord)
qed

lemma decodeLogData_encode:
  assumes "0 \<le> points" "points < 2 ^ 256" "0 \<le> week" "week < 2 ^ 256"
  shows "decodeLogData (Some (encodeLogData points week)) = Inr (Some (points, week))"
proof -
  let ?a = "hexWord 64 32" and ?b = "hexWord 64 64"
  let ?c = "encodePayload points week"
  have st: "strip0x (encodeLogData points week) = ?a @ ?b @ ?c"
    unfolding encodeLogData_def by (rule strip0x_prefixed)
  have lc: "length ?c = 128" by (simp add: encodePayload_def)
  have "extractBytesParamFromLogData (Some (encodeLogData points week)) = Inr (Some (''0x'' @ ?c))"
    using BigInt0x_hexWord [of 32] BigInt0x_hexWord [of 64] lc st
    by (intro extract_layoutA) simp_all
  then show ?thesis
    using decode_payload [OF assms] by (simp add: decodeLogData_def)
qed


text \<open>
  Claim C7. For every pair of unsigned 256-bit integers \<open>(points, week)\<close>, decoding the
  reference encoding of the payload (the 32-byte big-endian word of the points followed by
  the 32-byte big-endian word of the week, as a hexadecimal string, with or without the
  \<open>0x\<close> prefix) with \<^verbatim>\<open>decodePointsAndWeek\<close> returns exactly \<open>(points, week)\<close>.
\<close>

theorem decode_encode_roundtrip:
  assumes "0 \<le> points" "points < 2 ^ 256" "0 \<le> week" "week < 2 ^ 256"
  shows "decodePointsAndWeek (Some (''0x'' @ encodePayload points week)) = Inr (Some (points, week))
       \<and> decodePointsAndWeek (Some (encodePayload points week)) = Inr (Some (points, week))"
  using decode_payload [OF assms] by simp

theorem decode_encode_roundtrip_witness:
  "(0::int) \<le> 5 \<and> (5::int) < 2 ^ 256 \<and> (0::int) \<le> 1700000000000 \<and> (1700000000000::int) < 2 ^ 256
   \<and> decodePointsAndWeek (Some (''0x'' @ encodePayload 5 1700000000000)) = Inr (Some (5, 1700000000000))
   \<and> decodePointsAndWeek (Some (encodePayload 5 1700000000000)) = Inr (Some (5, 1700000000000))"
  using decode_encode_roundtrip [of 5 1700000000000] by simp













section \<open>Pruning keeps the top totals\<close>

lemma mapSet_fresh: "k \<notin> fst ` set m \<Longrightarrow> mapSet m k v = m @ [(k, v)]"
  by (induction m) auto

lemma newMap_distinct_aux:
  "distinct (map fst (acc @ xs)) \<Longrightarrow>
   foldl (\<lambda>m e. mapSet m (fst e) (snd e)) acc xs = acc @ xs"
proof (induction xs arbitrary: acc)
  case Nil
  then show ?case by simp
next
  case (Cons x xs)
  from Cons.prems have fresh: "fst x \<notin> fst ` set acc" by auto
  from Cons.prems have d: "distinct (map fst ((acc @ [x]) @ xs))" by simp
  have "mapSet acc (fst x) (snd x) = acc @ [x]"
    using mapSet_fresh [OF fresh, of "snd x"] by simp
  then show ?case
    using Cons.IH [OF d] by simp
qed

lemma newMap_distinct: "distinct (map fst xs) \<Longrightarrow> newMap xs = xs"
  using newMap_distinct_aux [of "[]" xs] by (simp add: newMap_def)

lemma sortByTotalDesc_props:
  "set (sortByTotalDesc m) = set m"
  "length (sortByTotalDesc m) = length m"
  "sorted (map (\<lambda>e. - snd e) (sortByTotalDesc m))"
  by (simp_all add: sortByTotalDesc_def)

lemma distinct_keys_sort:
  assumes "distinct (map fst m)"
  shows "distinct (map fst (sortByTotalDesc m))"
  using assms by (simp add: distinct_map sortByTotalDesc_def)

lemma pruneToTop_eq:
  assumes "distinct (map fst m)"
  shows "pruneToTop m keep = take keep (sortByTotalDesc m)"
proof -
  have "distinct (map fst (take keep (sortByTotalDesc m)))"
    using distinct_keys_sort [OF assms] by (simp add: take_map [symmetric] distinct_take del: take_map)
  then show ?thesis by (simp add: pruneToTop_def newMap_distinct)
qed

text \<open>
  Claim C8. For every address-to-total map and every \<open>K\<close>, \<^verbatim>\<open>pruneToTop(map, K)\<close>
  returns a map of at most \<open>K\<close> entries (exactly \<open>min K (size map)\<close>: nothing is
  dropped without need), each an entry of the map with its total, and every entry it drops
  has a total less than or equal to the total of every entry it keeps. So an address is
  dropped only when \<open>K\<close> kept addresses have totals at least as large as its own.
\<close>

theorem pruneToTop_keeps_top:
  assumes "distinct (map fst m)"
  shows "length (pruneToTop m K) \<le> K
       \<and> length (pruneToTop m K) = min K (length m)
       \<and> distinct (map fst (pruneToTop m K))
       \<and> set (pruneToTop m K) \<subseteq> set m
       \<and> (\<forall>(a, p) \<in> set m - set (pruneToTop m K). \<forall>(b, q) \<in> set (pruneToTop m K). p \<le> q)"
proof -
  let ?s = "sortByTotalDesc m"
  have eq: "pruneToTop m K = take K ?s" by (rule pruneToTop_eq [OF assms])
  have dk: "distinct (map fst ?s)" by (rule distinct_keys_sort [OF assms])
  have len: "length (take K ?s) = min K (length m)"
    by (simp add: sortByTotalDesc_props(2) min.commute)
  have sub: "set (take K ?s) \<subseteq> set m"
    using set_take_subset [of K ?s] by (simp add: sortByTotalDesc_props(1))
  have dist: "distinct (map fst (take K ?s))"
    using dk by (simp add: take_map [symmetric] distinct_take del: take_map)
  have dropped: "set m - set (take K ?s) \<subseteq> set (drop K ?s)"
  proof -
    have "set m = set (take K ?s) \<union> set (drop K ?s)"
      using set_append [of "take K ?s" "drop K ?s"] by (simp add: sortByTotalDesc_props(1))
    then show ?thesis by auto
  qed
  have srt: "sorted (map (\<lambda>e. - snd e) (take K ?s @ drop K ?s))"
    using sortByTotalDesc_props(3) [of m] by simp
  have ord: "\<forall>x \<in> set (drop K ?s). \<forall>y \<in> set (take K ?s). snd x \<le> snd y"
    using srt unfolding map_append sorted_append by auto
  have "\<forall>(a, p) \<in> set m - set (take K ?s). \<forall>(b, q) \<in> set (take K ?s). p \<le> q"
    using dropped ord by fastforce
  then show ?thesis
    using len sub dist by (simp add: eq)
qed

theorem pruneToTop_keeps_top_witness:
  "distinct (map fst [(''0xa'', 5::int), (''0xb'', 9), (''0xc'', 7)])
   \<and> pruneToTop [(''0xa'', 5), (''0xb'', 9), (''0xc'', 7)] 2 = [(''0xb'', 9), (''0xc'', 7)]
   \<and> length (pruneToTop [(''0xa'', 5), (''0xb'', 9), (''0xc'', 7)] 2) \<le> 2"
  using pruneToTop_keeps_top [of "[(''0xa'', 5), (''0xb'', 9), (''0xc'', 7)]" 2]
  by (simp add: pruneToTop_def sortByTotalDesc_def newMap_def)

section \<open>The merge skips weeks outside the window\<close>

lemma mergeLog_skip:
  assumes "decodeLogData (data l) = Inr (Some (points, week))"
    and "week \<noteq> curWeekMs" "week \<noteq> prevWeekMs"
    and "\<bar>curWeekMs\<bar> < 2 ^ 53" "\<bar>prevWeekMs\<bar> < 2 ^ 53"
  shows "mergeLog curWeekMs prevWeekMs ws l = Inr ws"
  using assms
  by (auto simp: mergeLog_def decodeLogData_def Let_def NumberOfBigInt_eq_iff
      split: sum.splits option.splits)

lemma mergeLogs_append:
  "mergeLogs c p ws (xs @ ys) =
     (case mergeLogs c p ws xs of Inl e \<Rightarrow> Inl e | Inr ws' \<Rightarrow> mergeLogs c p ws' ys)"
  by (induction xs arbitrary: ws) (auto split: sum.splits)

text \<open>
  Claim C6. A log that decodes to a week which is neither the tracked current week start
  nor the tracked previous week start is skipped by the merge: the loop body returns the
  buckets as they were (no total changes, no address and no bucket is added), and merging
  a batch with that log gives what merging the batch without it gives. The week starts are
  time values, below \<open>2^53\<close> in magnitude, which makes the comparison after
  \<^verbatim>\<open>Number(dec.week)\<close> exact.
\<close>

theorem merge_skips_out_of_window:
  assumes "decodeLogData (data l) = Inr (Some (points, week))"
    and "week \<noteq> curWeekMs" "week \<noteq> prevWeekMs"
    and "\<bar>curWeekMs\<bar> < 2 ^ 53" "\<bar>prevWeekMs\<bar> < 2 ^ 53"
  shows "mergeLog curWeekMs prevWeekMs ws l = Inr ws
       \<and> mergeLogs curWeekMs prevWeekMs ws (before @ l # after)
           = mergeLogs curWeekMs prevWeekMs ws (before @ after)"
proof -
  have skip: "mergeLog curWeekMs prevWeekMs ws' l = Inr ws'" for ws'
    using assms by (rule mergeLog_skip)
  show ?thesis
    by (simp add: skip mergeLogs_append split: sum.splits)
qed

theorem merge_skips_out_of_window_witness:
  "decodeLogData (data \<lparr>topic1 = Some ''0xab'', data = Some (encodeLogData 5 7)\<rparr>) = Inr (Some (5, 7))
   \<and> (7::int) \<noteq> 1209600000 \<and> (7::int) \<noteq> 604800000
   \<and> \<bar>1209600000::int\<bar> < 2 ^ 53 \<and> \<bar>604800000::int\<bar> < 2 ^ 53
   \<and> mergeLog 1209600000 604800000 [\<lparr>weekMs = 1209600000, wmap = [(''0xab'', 3)]\<rparr>]
         \<lparr>topic1 = Some ''0xab'', data = Some (encodeLogData 5 7)\<rparr>
       = Inr [\<lparr>weekMs = 1209600000, wmap = [(''0xab'', 3)]\<rparr>]"
proof -
  have d: "decodeLogData (data \<lparr>topic1 = Some ''0xab'', data = Some (encodeLogData 5 7)\<rparr>)
           = Inr (Some (5, 7))"
    by (simp add: decodeLogData_encode)
  show ?thesis
    using d merge_skips_out_of_window [OF d, of 1209600000 604800000
        "[\<lparr>weekMs = 1209600000, wmap = [(''0xab'', 3)]\<rparr>]" "[]" "[]"]
    by simp
qed

section \<open>The chunked scan and its deadline\<close>

lemma emit_eq: "emit c r = (tr, res) \<longleftrightarrow> (\<exists>tr'. tr = c # tr' \<and> r = (tr', res))"
  by (cases r) (auto simp: emit_def)

lemma emit_pair [simp]: "emit c (tr, res) = (c # tr, res)"
  by (simp add: emit_def)

lemma bigintHalf_nonneg: "0 \<le> a \<Longrightarrow> 0 \<le> bigintHalf a"
  by (simp add: bigintHalf_def)

lemma shrinkStep_nonneg: "0 \<le> step \<Longrightarrow> 0 \<le> hm \<Longrightarrow> 0 \<le> shrinkStep step hm"
  by (simp add: shrinkStep_def Let_def bigintHalf_nonneg)

lemma retryStep_nonneg: "0 \<le> step \<Longrightarrow> 0 \<le> hm \<Longrightarrow> 0 \<le> retryStep e step hm"
  by (simp add: retryStep_def Let_def shrinkStep_nonneg)

lemma chunkEnd_bounds: "frm \<le> toB \<Longrightarrow> 0 \<le> step \<Longrightarrow> frm \<le> chunkEnd frm step toB \<and> chunkEnd frm step toB \<le> toB"
  by (simp add: chunkEnd_def)

lemma chunkLogs_simps [simp]:
  "chunkLogs [] = []" "chunkLogs ((f, t, ls) # cs) = ls @ chunkLogs cs"
  by (simp_all add: chunkLogs_def)

text \<open>The cases of one iteration of the scan.\<close>

lemma loop_finished:
  "\<not> frm \<le> toB \<Longrightarrow>
   fetchLogsLoop toB hm dl ticks frm step lo lsb
     = ([], Some (Inr \<lparr>logs = lo, lastScannedBlock = lsb, complete = True\<rparr>))"
  by (cases ticks) auto

lemma loop_out_of_ticks:
  "frm \<le> toB \<Longrightarrow> fetchLogsLoop toB hm dl [] frm step lo lsb = ([], None)"
  by simp

lemma loop_deadline_hit:
  "frm \<le> toB \<Longrightarrow> deadlinePassed dl now \<Longrightarrow>
   fetchLogsLoop toB hm dl ((now, rpc) # ticks) frm step lo lsb
     = ([], Some (Inr \<lparr>logs = lo, lastScannedBlock = lsb, complete = False\<rparr>))"
  by simp

lemma loop_chunk_ok:
  "frm \<le> toB \<Longrightarrow> \<not> deadlinePassed dl now \<Longrightarrow> rpc frm (chunkEnd frm step toB) = Inr ls \<Longrightarrow>
   fetchLogsLoop toB hm dl ((now, rpc) # ticks) frm step lo lsb
     = emit (EthGetLogs frm (chunkEnd frm step toB) (Inr ls))
         (fetchLogsLoop toB hm dl ticks (chunkEnd frm step toB + 1) step (lo @ ls)
            (chunkEnd frm step toB))"
  by (simp add: chunkEnd_def Let_def)

lemma loop_fatal:
  "frm \<le> toB \<Longrightarrow> \<not> deadlinePassed dl now \<Longrightarrow> rpc frm (chunkEnd frm step toB) = Inl e \<Longrightarrow>
   isFreeTierMsg (toLowerCase (message e)) \<Longrightarrow>
   fetchLogsLoop toB hm dl ((now, rpc) # ticks) frm step lo lsb
     = ([EthGetLogs frm (chunkEnd frm step toB) (Inl e)], Some (Inl e))"
  by (simp add: chunkEnd_def Let_def)

lemma loop_retry:
  "frm \<le> toB \<Longrightarrow> \<not> deadlinePassed dl now \<Longrightarrow> rpc frm (chunkEnd frm step toB) = Inl e \<Longrightarrow>
   \<not> isFreeTierMsg (toLowerCase (message e)) \<Longrightarrow>
   fetchLogsLoop toB hm dl ((now, rpc) # ticks) frm step lo lsb
     = emit (EthGetLogs frm (chunkEnd frm step toB) (Inl e))
         (fetchLogsLoop toB hm dl ticks frm (retryStep e step hm) lo lsb)"
  by (simp add: chunkEnd_def retryStep_def Let_def)

text \<open>Every iteration is one of these cases.\<close>

lemma loop_cases:
  obtains (finished) "\<not> frm \<le> toB"
  | (deadline) "frm \<le> toB" "deadlinePassed dl now"
  | (ok) ls where "frm \<le> toB" "\<not> deadlinePassed dl now" "rpc frm (chunkEnd frm step toB) = Inr ls"
  | (fatal) e where "frm \<le> toB" "\<not> deadlinePassed dl now" "rpc frm (chunkEnd frm step toB) = Inl e"
      "isFreeTierMsg (toLowerCase (message e))"
  | (retry) e where "frm \<le> toB" "\<not> deadlinePassed dl now" "rpc frm (chunkEnd frm step toB) = Inl e"
      "\<not> isFreeTierMsg (toLowerCase (message e))"
  by (cases "rpc frm (chunkEnd frm step toB)") auto

lemma loop_deadline:
  assumes "fetchLogsLoop toB hm dl pre frm step lo lsb = (tr, None)"
    and "deadlinePassed dl now"
  shows "fetchLogsLoop toB hm dl (pre @ (now, rpc) # rest) frm step lo lsb
         = (tr, Some (Inr \<lparr>logs = lo @ chunkLogs (scannedChunks tr),
                           lastScannedBlock = lastBoundary lsb (scannedChunks tr),
                           complete = False\<rparr>))"
  using assms
proof (induction pre arbitrary: frm step lo lsb tr)
  case Nil
  then show ?case by (simp split: if_splits)
next
  case (Cons tick pre)
  obtain n1 rpc1 where tick: "tick = (n1, rpc1)" by (cases tick)
  note prem = Cons.prems(1) [unfolded tick]
  show ?case
  proof (cases rule: loop_cases [where frm = frm and toB = toB and dl = dl and now = n1 and rpc = rpc1 and step = step])
    case finished
    with prem show ?thesis by (simp add: loop_finished)
  next
    case deadline
    with prem show ?thesis by (simp add: loop_deadline_hit del: fetchLogsLoop.simps)
  next
    case (ok ls)
    have st: "fetchLogsLoop toB hm dl ((n1, rpc1) # ts) frm step lo lsb
        = emit (EthGetLogs frm (chunkEnd frm step toB) (Inr ls))
            (fetchLogsLoop toB hm dl ts (chunkEnd frm step toB + 1) step (lo @ ls)
               (chunkEnd frm step toB))" for ts
      using ok by (rule loop_chunk_ok)
    from prem obtain tr' where tr: "tr = EthGetLogs frm (chunkEnd frm step toB) (Inr ls) # tr'"
      and run: "fetchLogsLoop toB hm dl pre (chunkEnd frm step toB + 1) step (lo @ ls)
                  (chunkEnd frm step toB) = (tr', None)"
      unfolding st emit_eq by blast
    show ?thesis
      using Cons.IH [OF run Cons.prems(2)]
      by (simp add: tick st tr del: fetchLogsLoop.simps)
  next
    case (fatal e)
    with prem show ?thesis by (simp add: loop_fatal del: fetchLogsLoop.simps)
  next
    case (retry e)
    have st: "fetchLogsLoop toB hm dl ((n1, rpc1) # ts) frm step lo lsb
        = emit (EthGetLogs frm (chunkEnd frm step toB) (Inl e))
            (fetchLogsLoop toB hm dl ts frm (retryStep e step hm) lo lsb)" for ts
      using retry by (rule loop_retry)
    from prem obtain tr' where tr: "tr = EthGetLogs frm (chunkEnd frm step toB) (Inl e) # tr'"
      and run: "fetchLogsLoop toB hm dl pre frm (retryStep e step hm) lo lsb = (tr', None)"
      unfolding st emit_eq by blast
    show ?thesis
      using Cons.IH [OF run Cons.prems(2)]
      by (simp add: tick st tr del: fetchLogsLoop.simps)
  qed
qed

lemma loop_chunksFrom:
  assumes "fetchLogsLoop toB hm dl ticks frm step lo lsb = (tr, res)"
    and "0 \<le> step" "0 \<le> hm"
  shows "chunksFrom frm (scannedChunks tr)"
  using assms
proof (induction ticks arbitrary: frm step lo lsb tr)
  case Nil
  then show ?case by (auto split: if_splits)
next
  case (Cons tick ticks)
  obtain n1 rpc1 where tick: "tick = (n1, rpc1)" by (cases tick)
  note prem = Cons.prems(1) [unfolded tick]
  show ?case
  proof (cases rule: loop_cases [where frm = frm and toB = toB and dl = dl and now = n1 and rpc = rpc1 and step = step])
    case finished
    with prem show ?thesis by (simp add: loop_finished)
  next
    case deadline
    with prem show ?thesis by (simp add: loop_deadline_hit del: fetchLogsLoop.simps)
  next
    case (ok ls)
    have st: "fetchLogsLoop toB hm dl ((n1, rpc1) # ts) frm step lo lsb
        = emit (EthGetLogs frm (chunkEnd frm step toB) (Inr ls))
            (fetchLogsLoop toB hm dl ts (chunkEnd frm step toB + 1) step (lo @ ls)
               (chunkEnd frm step toB))" for ts
      using ok by (rule loop_chunk_ok)
    from prem obtain tr' where tr: "tr = EthGetLogs frm (chunkEnd frm step toB) (Inr ls) # tr'"
      and run: "fetchLogsLoop toB hm dl ticks (chunkEnd frm step toB + 1) step (lo @ ls)
                  (chunkEnd frm step toB) = (tr', res)"
      unfolding st emit_eq by blast
    show ?thesis
      using Cons.IH [OF run Cons.prems(2,3)] chunkEnd_bounds [OF ok(1) Cons.prems(2)]
      by (simp add: tr)
  next
    case (fatal e)
    with prem show ?thesis by (auto simp add: loop_fatal simp del: fetchLogsLoop.simps)
  next
    case (retry e)
    have st: "fetchLogsLoop toB hm dl ((n1, rpc1) # ts) frm step lo lsb
        = emit (EthGetLogs frm (chunkEnd frm step toB) (Inl e))
            (fetchLogsLoop toB hm dl ts frm (retryStep e step hm) lo lsb)" for ts
      using retry by (rule loop_retry)
    from prem obtain tr' where tr: "tr = EthGetLogs frm (chunkEnd frm step toB) (Inl e) # tr'"
      and run: "fetchLogsLoop toB hm dl ticks frm (retryStep e step hm) lo lsb = (tr', res)"
      unfolding st emit_eq by blast
    show ?thesis
      using Cons.IH [OF run retryStep_nonneg [OF Cons.prems(2,3)] Cons.prems(3)]
      by (simp add: tr)
  qed
qed

text \<open>
  Claim C3, as amended. When the chunked scan, after any number of iterations that neither
  finished the range nor threw, finds the deadline passed at the check that opens the next
  iteration, it returns (it does not throw) with \<open>complete = false\<close>, with the logs of the
  chunks fully scanned so far, in order, and with \<open>lastScannedBlock\<close> the upper boundary
  of the last fully scanned chunk; the fully scanned chunks follow one another from
  \<open>fromBlock\<close> on without gap, so the boundary is never inside a chunk that was not
  scanned. When no chunk was completed, \<open>lastScannedBlock\<close> is \<open>fromBlock - 1\<close> for a
  positive \<open>fromBlock\<close> and \<open>0\<close> otherwise.
\<close>

theorem fetchLogsRange_deadline:
  assumes "fetchLogsRange fromBlock toBlock stepInitial hardMinStep deadlineMs pre = (tr, None)"
    and "deadlinePassed deadlineMs now"
    and "0 \<le> stepInitial" "0 \<le> hardMinStep"
  shows "fetchLogsRange fromBlock toBlock stepInitial hardMinStep deadlineMs (pre @ (now, rpc) # rest)
         = (tr, Some (Inr \<lparr>logs = chunkLogs (scannedChunks tr),
                lastScannedBlock =
                  lastBoundary (if fromBlock > 0 then fromBlock - 1 else 0) (scannedChunks tr),
                complete = False\<rparr>))
       \<and> chunksFrom fromBlock (scannedChunks tr)"
  using loop_deadline [OF assms(1) [unfolded fetchLogsRange_def] assms(2), of rpc rest]
    loop_chunksFrom [OF assms(1) [unfolded fetchLogsRange_def] assms(3,4)]
  by (simp add: fetchLogsRange_def)

theorem fetchLogsRange_deadline_witness:
  "fetchLogsRange 100 20000 8000 900 (Some 60) [(50, \<lambda>f t. Inr [])]
     = ([EthGetLogs 100 8100 (Inr [])], None)
   \<and> deadlinePassed (Some 60) 61 \<and> (0::int) \<le> 8000 \<and> (0::int) \<le> 900
   \<and> fetchLogsRange 100 20000 8000 900 (Some 60) ([(50, \<lambda>f t. Inr [])] @ [(61, \<lambda>f t. Inr [])])
     = ([EthGetLogs 100 8100 (Inr [])],
        Some (Inr \<lparr>logs = [], lastScannedBlock = 8100, complete = False\<rparr>))"
proof -
  have run: "fetchLogsRange 100 20000 8000 900 (Some 60) [(50, \<lambda>f t. Inr [])]
     = ([EthGetLogs 100 8100 (Inr [])], None)"
    by (simp add: fetchLogsRange_def deadlinePassed_def)
  have dl: "deadlinePassed (Some 60) 61"
    by (simp add: deadlinePassed_def)
  show ?thesis
    using run dl fetchLogsRange_deadline [OF run dl, of "\<lambda>f t. Inr []" "[]"]
    by simp
qed

text \<open>
  Claim C3 as stated fails for \<open>fromBlock = 0\<close>: with the deadline passed at the first
  check, no chunk is completed and \<open>lastScannedBlock\<close> is \<open>0\<close>, not \<open>fromBlock - 1\<close>.
\<close>

theorem fetchLogsRange_from_zero:
  "fetchLogsRange 0 500 8000 900 (Some 60) [(61, \<lambda>f t. Inr [])]
     = ([], Some (Inr \<lparr>logs = [], lastScannedBlock = 0, complete = False\<rparr>))
   \<and> (0::int) \<noteq> 0 - 1"
  by (simp add: fetchLogsRange_def deadlinePassed_def)

section \<open>The incremental update of a reused state\<close>

lemma requestedRanges_append [simp]:
  "requestedRanges (xs @ ys) = requestedRanges xs @ requestedRanges ys"
  by (induction xs rule: requestedRanges.induct) auto






lemma weekStart_example: "weekStartUtcMs 1700000000000 = 1699833600000"
  by (simp add: weekStartUtcMs_def)



text \<open>
  Claim C10. For every existing state that the incremental update reuses, if
  \<open>lastProcessedBlock\<close> is already at or beyond the latest block, the only call is the
  one for the latest block (no log is fetched) and the state comes back with its week
  buckets, \<open>lastProcessedBlock\<close>, \<open>schemaVersion\<close> and every other field unchanged, except
  \<open>updatedAt\<close>, which is written, and \<open>currentWeekMs\<close> and \<open>lastWeekMs\<close>, which are
  recomputed: \<open>currentWeekMs\<close> to its old value, \<open>lastWeekMs\<close> to the week before it (its old
  value in every state this engine stored).
\<close>

theorem incrementalUpdate_noop:
  assumes "reusable w s"
    and "lastProcessedBlock s = Some b"
    and "latestBlock w = Inr latest"
    and "latest \<le> b"
  shows "incrementalUpdate w (Some s) deadlineMs
         = ([EthBlockNumber],
            Some (Inr (s\<lparr>lastWeekMs := currentWeekMs s - 604800000, updatedAt := nowEnd w\<rparr>)))
       \<and> requestedRanges (fst (incrementalUpdate w (Some s) deadlineMs)) = []
       \<and> (lastWeekMs s = currentWeekMs s - 604800000 \<longrightarrow>
            snd (incrementalUpdate w (Some s) deadlineMs) = Some (Inr (s\<lparr>updatedAt := nowEnd w\<rparr>)))"
proof -
  have run: "incrementalUpdate w (Some s) deadlineMs
         = ([EthBlockNumber],
            Some (Inr (s\<lparr>lastWeekMs := currentWeekMs s - 604800000, updatedAt := nowEnd w\<rparr>)))"
    using assms by (simp add: incrementalUpdate_def reusable_def Let_def emit_def)
  have "s\<lparr>lastWeekMs := lastWeekMs s\<rparr> = s" by simp
  then show ?thesis
    unfolding run by auto
qed

theorem incrementalUpdate_noop_witness:
  "reusable (exWorld []) (exState 1699833600000 500)
   \<and> lastProcessedBlock (exState 1699833600000 500) = Some 500
   \<and> latestBlock (exWorld []) = Inr 500 \<and> (500::int) \<le> 500
   \<and> lastWeekMs (exState 1699833600000 500) = currentWeekMs (exState 1699833600000 500) - 604800000
   \<and> incrementalUpdate (exWorld []) (Some (exState 1699833600000 500)) (Some 1700000008500)
       = ([EthBlockNumber], Some (Inr ((exState 1699833600000 500)\<lparr>updatedAt := 1700000000900\<rparr>)))"
proof -
  let ?w = "exWorld []"
  let ?s = "exState 1699833600000 500"
  have r: "reusable ?w ?s"
    by (simp add: reusable_def exWorld_def exState_def bigTruthy_def weekStart_example
        STATE_SCHEMA_VERSION_def)
  have l: "lastProcessedBlock ?s = Some 500" by (simp add: exState_def)
  have b: "latestBlock ?w = Inr 500" by (simp add: exWorld_def)
  have lw: "lastWeekMs ?s = currentWeekMs ?s - 604800000" by (simp add: exState_def)
  have ne: "nowEnd ?w = 1700000000900" by (simp add: exWorld_def)
  have eq: "?s\<lparr>lastWeekMs := currentWeekMs ?s - 604800000\<rparr> = ?s"
    by (simp add: exState_def)
  show ?thesis
    using r l b lw incrementalUpdate_noop [OF r l b, of "Some 1700000008500"]
    by (simp add: ne eq)
qed


section \<open>Week rollover: cold backfill in one revision, snapshot in the other\<close>

lemma loop_p1_calls:
  assumes "fetchLogsLoop_p1 toB hm dl ticks frm step lo = (tr, res)"
    and "0 \<le> step" "0 \<le> hm"
  shows "(\<forall>c \<in> set tr. \<not> isTimeLookup c) \<and> (\<forall>q \<in> set (requestedRanges tr). frm \<le> fst q)"
  using assms
proof (induction ticks arbitrary: frm step lo tr)
  case Nil
  then show ?case by (auto split: if_splits)
next
  case (Cons tick ticks)
  obtain n1 rpc1 where tick: "tick = (n1, rpc1)" by (cases tick)
  note prem = Cons.prems(1) [unfolded tick]
  show ?case
  proof (cases "frm \<le> toB \<and> \<not> deadlinePassed dl n1")
    case False
    with prem show ?thesis by (auto split: if_splits)
  next
    case True
    define to where "to = chunkEnd frm step toB"
    have ft: "frm \<le> to"
      using True Cons.prems(2) chunkEnd_bounds [of frm toB step] by (simp add: to_def)
    show ?thesis
    proof (cases "rpc1 frm to")
      case (Inr ls)
      from prem True Inr obtain tr' where tr: "tr = EthGetLogs frm to (Inr ls) # tr'"
        and run: "fetchLogsLoop_p1 toB hm dl ticks (to + 1) step (lo @ ls) = (tr', res)"
        by (auto simp: to_def chunkEnd_def emit_eq Let_def)
      show ?thesis
        using Cons.IH [OF run Cons.prems(2,3)] ft by (auto simp: tr)
    next
      case (Inl e)
      show ?thesis
      proof (cases "isFreeTierMsg (toLowerCase (message e))")
        case True
        with prem \<open>frm \<le> toB \<and> \<not> deadlinePassed dl n1\<close> Inl show ?thesis
          by (auto simp: to_def chunkEnd_def Let_def)
      next
        case False
        define step' where "step' = (if isRangeTooLargeMsg_p1 (toLowerCase (message e))
                                      then shrinkStep step hm
                                     else if isTransient e (toLowerCase (message e)) then step
                                     else shrinkStep step hm)"
        have s': "0 \<le> step'"
          using Cons.prems(2,3) by (simp add: step'_def shrinkStep_nonneg)
        from prem True Inl False obtain tr' where tr: "tr = EthGetLogs frm to (Inl e) # tr'"
          and run: "fetchLogsLoop_p1 toB hm dl ticks frm step' lo = (tr', res)"
          by (auto simp: to_def chunkEnd_def step'_def emit_eq Let_def split: if_splits)
        show ?thesis
          using Cons.IH [OF run s' Cons.prems(3)] by (auto simp: tr)
      qed
    qed
  qed
qed

lemma incrementalScan_p1_calls:
  assumes "incrementalScan_p1 w frm latest dl = (tr, res)"
  shows "(\<forall>c \<in> set tr. \<not> isTimeLookup c) \<and> (\<forall>q \<in> set (requestedRanges tr). frm \<le> fst q)"
proof -
  obtain tr0 res0 where f: "fetchLogsRange_p1 frm latest 8000 900 dl (rpcTicks w) = (tr0, res0)"
    by (cases "fetchLogsRange_p1 frm latest 8000 900 dl (rpcTicks w)")
  have l: "(\<forall>c \<in> set tr0. \<not> isTimeLookup c) \<and> (\<forall>q \<in> set (requestedRanges tr0). frm \<le> fst q)"
    using loop_p1_calls [OF f [unfolded fetchLogsRange_p1_def]] by simp
  have "tr = tr0 \<or> tr = tr0 @ [BaseScanGetLogs frm latest]"
    using assms f by (auto simp: incrementalScan_p1_def split: option.splits sum.splits)
  then show ?thesis using l by auto
qed

lemma catchUp_p1_calls:
  assumes "catchUp_p1 w st cur prev latest dl = (tr, res)"
    and "lastProcessedBlock_p1 st = Some b"
  shows "(\<forall>c \<in> set tr. \<not> isTimeLookup c) \<and> (\<forall>q \<in> set (requestedRanges tr). b + 1 \<le> fst q)"
proof (cases "b + 1 > latest")
  case True
  with assms show ?thesis by (auto simp: catchUp_p1_def)
next
  case False
  obtain tr1 res1 where sc: "incrementalScan_p1 w (b + 1) latest dl = (tr1, res1)"
    by (cases "incrementalScan_p1 w (b + 1) latest dl")
  have "tr = tr1"
    using assms False sc by (auto simp: catchUp_p1_def Let_def split: option.splits sum.splits)
  then show ?thesis using incrementalScan_p1_calls [OF sc] by simp
qed

lemma rollover_p1_run:
  assumes "currentWeekMs_p1 s1 = weekStartUtcMs (nowStart w) - 604800000"
    and "lastProcessedBlock_p1 s1 = Some b" "b \<noteq> 0"
    and "latestBlock w = Inr latest"
  shows "incrementalUpdate_p1 w (Some s1) dl
         = emit EthBlockNumber
             (catchUp_p1 w
                (rolloverSnapshot_p1 s1 (weekStartUtcMs (nowStart w))
                   (weekStartUtcMs (nowStart w) - 604800000))
                (weekStartUtcMs (nowStart w)) (weekStartUtcMs (nowStart w) - 604800000)
                latest dl)"
  using assms by (simp add: incrementalUpdate_p1_def Let_def bigTruthy_def)

lemma resolveFromBlock_head:
  "\<exists>tr fb. resolveFromBlock w a l = (BaseScanBlockByTime a # tr, fb)"
  by (simp add: resolveFromBlock_def split: sum.splits prod.splits)

lemma backfill_trace:
  assumes "latestBlock2 w = Inr l2"
  shows "\<exists>tr. fst (backfillTwoWeeks w now dl)
           = EthBlockNumber # BaseScanBlockByTime ((weekStartUtcMs now - 604800000) div 1000 - 3600) # tr"
proof -
  let ?a = "(weekStartUtcMs now - 604800000) div 1000 - 3600"
  obtain tr1 fb where r: "resolveFromBlock w ?a l2 = (BaseScanBlockByTime ?a # tr1, fb)"
    using resolveFromBlock_head [of w ?a l2] by blast
  obtain tr2 res2 where b: "backfillScan w fb l2 dl = (tr2, res2)"
    by (cases "backfillScan w fb l2 dl")
  show ?thesis
    by (simp add: backfillTwoWeeks_def Let_def assms r b split: option.splits sum.splits)
qed

lemma cold_when_week_differs:
  assumes "currentWeekMs s \<noteq> weekStartUtcMs (nowStart w)"
  shows "incrementalUpdate w (Some s) dl = incrementalUpdate w None dl"
  using assms by (simp add: incrementalUpdate_def Let_def split: sum.splits)

lemma cold_run:
  assumes "latestBlock w = Inr latest"
  shows "incrementalUpdate w None dl = emit EthBlockNumber (backfillTwoWeeks w (nowStart w) dl)"
  using assms by (simp add: incrementalUpdate_def Let_def)

lemma getOrMakeWeekMap_snd:
  "snd (getOrMakeWeekMap ws wk) = (case findWeek ws wk of None \<Rightarrow> [] | Some w \<Rightarrow> wmap w)"
  by (simp add: getOrMakeWeekMap_def split: option.splits)

lemma snapshot_returned:
  assumes "currentWeekMs_p1 s1 = weekStartUtcMs (nowStart w) - 604800000"
    and "lastProcessedBlock_p1 s1 = Some b" "b \<noteq> 0"
    and "latestBlock w = Inr latest" "latest \<le> b"
  shows "incrementalUpdate_p1 w (Some s1) dl
            = ([EthBlockNumber],
               Some (Inr \<lparr>currentWeekMs_p1 = weekStartUtcMs (nowStart w),
                          lastWeekMs_p1 = currentWeekMs_p1 s1,
                          lastProcessedBlock_p1 = Some b,
                          weeks_p1 =
                            [\<lparr>weekMs = weekStartUtcMs (nowStart w), wmap = []\<rparr>,
                             \<lparr>weekMs = currentWeekMs_p1 s1,
                              wmap = (case findWeek (weeks_p1 s1) (currentWeekMs_p1 s1) of
                                        None \<Rightarrow> [] | Some wk \<Rightarrow> wmap wk)\<rparr>],
                          updatedAt_p1 = nowEnd w\<rparr>))"
proof -
  let ?cur = "weekStartUtcMs (nowStart w)"
  let ?snap = "rolloverSnapshot_p1 s1 ?cur (?cur - 604800000)"
  have snap: "?snap = \<lparr>currentWeekMs_p1 = ?cur,
                          lastWeekMs_p1 = currentWeekMs_p1 s1,
                          lastProcessedBlock_p1 = Some b,
                          weeks_p1 =
                            [\<lparr>weekMs = ?cur, wmap = []\<rparr>,
                             \<lparr>weekMs = currentWeekMs_p1 s1,
                              wmap = (case findWeek (weeks_p1 s1) (currentWeekMs_p1 s1) of
                                        None \<Rightarrow> [] | Some wk \<Rightarrow> wmap wk)\<rparr>],
                          updatedAt_p1 = updatedAt_p1 s1\<rparr>"
    using assms(1,2) by (cases s1) (simp add: rolloverSnapshot_p1_def Let_def getOrMakeWeekMap_snd)
  have cu: "catchUp_p1 w ?snap ?cur (?cur - 604800000) latest dl
        = ([], Some (Inr (?snap\<lparr>updatedAt_p1 := nowEnd w\<rparr>)))"
    using assms(2,5) by (simp add: catchUp_p1_def rolloverSnapshot_p1_def Let_def)
  show ?thesis
    unfolding rollover_p1_run [OF assms(1-4)] cu
    by (simp add: snap)
qed


lemma pruneToTop_empty [simp]: "pruneToTop [] k = []"
  by (simp add: pruneToTop_def sortByTotalDesc_def newMap_def)

text \<open>Merging into two buckets of the tracked weeks gives two buckets of those weeks.\<close>

lemma weekMs_updateWeekMap [simp]: "map weekMs (updateWeekMap ws wk f) = map weekMs ws"
  by (induction ws) auto

lemma findWeek_present: "wk \<in> set (map weekMs ws) \<Longrightarrow> \<exists>x. findWeek ws wk = Some x"
  by (induction ws) (auto simp: findWeek_def)

lemma weekMs_addPoints:
  assumes "wk \<in> set (map weekMs ws)"
  shows "map weekMs (addPoints ws wk user points) = map weekMs ws"
proof -
  obtain x where "findWeek ws wk = Some x" using findWeek_present [OF assms] by blast
  then show ?thesis by (simp add: addPoints_def getOrMakeWeekMap_def Let_def)
qed

lemma weekMs_mergeLog:
  assumes "mergeLog c p ws l = Inr ws'" "map weekMs ws = [c, p]"
  shows "map weekMs ws' = [c, p]"
proof -
  have "ws' = ws \<or> (\<exists>wk user points. (wk = c \<or> wk = p) \<and> ws' = addPoints ws wk user points)"
    using assms(1)
    by (fastforce simp: mergeLog_def Let_def split: sum.splits option.splits if_splits)
  then show ?thesis
    using assms(2) weekMs_addPoints [of _ ws] by auto
qed

lemma weekMs_mergeLogs:
  assumes "mergeLogs c p ws ls = Inr ws'" "map weekMs ws = [c, p]"
  shows "map weekMs ws' = [c, p]"
  using assms
proof (induction ls arbitrary: ws)
  case Nil
  then show ?case by simp
next
  case (Cons l ls)
  from Cons.prems(1) obtain ws1 where m: "mergeLog c p ws l = Inr ws1"
    and r: "mergeLogs c p ws1 ls = Inr ws'"
    by (auto split: sum.splits)
  show ?case
    using Cons.IH [OF r weekMs_mergeLog [OF m Cons.prems(2)]] .
qed

lemma filter_window:
  assumes "map weekMs ws = [c, p]"
  shows "filter (\<lambda>wk. weekMs wk = c \<or> weekMs wk = p) ws = ws"
proof -
  have "\<forall>x \<in> set ws. weekMs x \<in> set (map weekMs ws)" by simp
  then have "\<forall>x \<in> set ws. weekMs x = c \<or> weekMs x = p" unfolding assms by simp
  then show ?thesis by (simp add: filter_id_conv)
qed

text \<open>The state after the rotation, and the catch-up from it.\<close>

lemma snapshot_eq:
  assumes "currentWeekMs_p1 s1 = weekStartUtcMs (nowStart w) - 604800000"
    and "lastProcessedBlock_p1 s1 = Some b"
  shows "rolloverSnapshot_p1 s1 (weekStartUtcMs (nowStart w)) (weekStartUtcMs (nowStart w) - 604800000)
         = \<lparr>currentWeekMs_p1 = weekStartUtcMs (nowStart w),
            lastWeekMs_p1 = currentWeekMs_p1 s1,
            lastProcessedBlock_p1 = Some b,
            weeks_p1 =
              [\<lparr>weekMs = weekStartUtcMs (nowStart w), wmap = []\<rparr>,
               \<lparr>weekMs = currentWeekMs_p1 s1,
                wmap = (case findWeek (weeks_p1 s1) (currentWeekMs_p1 s1) of
                          None \<Rightarrow> [] | Some wk \<Rightarrow> wmap wk)\<rparr>],
            updatedAt_p1 = updatedAt_p1 s1\<rparr>"
  using assms by (cases s1) (simp add: rolloverSnapshot_p1_def Let_def getOrMakeWeekMap_snd)

lemma catchUp_merged:
  assumes "lastProcessedBlock_p1 st = Some b" "b < latest"
    and "incrementalScan_p1 w (b + 1) latest dl = (tr, Some (Inr ls))"
    and "mergeLogs c p (weeks_p1 st) ls = Inr ws"
    and "map weekMs (weeks_p1 st) = [c, p]"
  shows "catchUp_p1 w st c p latest dl
         = (tr, Some (Inr (st\<lparr>weeks_p1 := map (\<lambda>wk. \<lparr>weekMs = weekMs wk,
                                                     wmap = pruneToTop (wmap wk) PRUNE_KEEP_p1\<rparr>) ws,
                               lastProcessedBlock_p1 := Some latest,
                               updatedAt_p1 := nowEnd w\<rparr>)))"
  using assms(1-4) filter_window [OF weekMs_mergeLogs [OF assms(4,5)]]
  by (simp add: catchUp_p1_def Let_def)

lemma catchUp_merge_error:
  assumes "lastProcessedBlock_p1 st = Some b" "b < latest"
    and "incrementalScan_p1 w (b + 1) latest dl = (tr, Some (Inr ls))"
    and "mergeLogs c p (weeks_p1 st) ls = Inl e"
  shows "catchUp_p1 w st c p latest dl = (tr, Some (Inl e))"
  using assms by (simp add: catchUp_p1_def Let_def)

lemma rollover_merged:
  assumes "currentWeekMs_p1 s1 = weekStartUtcMs (nowStart w) - 604800000"
    and "lastProcessedBlock_p1 s1 = Some b" "b \<noteq> 0"
    and "latestBlock w = Inr latest" "b < latest"
    and "incrementalScan_p1 w (b + 1) latest dl = (tr, Some (Inr ls))"
    and "mergeLogs (weekStartUtcMs (nowStart w)) (currentWeekMs_p1 s1)
           [\<lparr>weekMs = weekStartUtcMs (nowStart w), wmap = []\<rparr>,
            \<lparr>weekMs = currentWeekMs_p1 s1,
             wmap = (case findWeek (weeks_p1 s1) (currentWeekMs_p1 s1) of
                       None \<Rightarrow> [] | Some wk \<Rightarrow> wmap wk)\<rparr>] ls = Inr ws"
  shows "incrementalUpdate_p1 w (Some s1) dl
         = (EthBlockNumber # tr,
            Some (Inr \<lparr>currentWeekMs_p1 = weekStartUtcMs (nowStart w),
                       lastWeekMs_p1 = currentWeekMs_p1 s1,
                       lastProcessedBlock_p1 = Some latest,
                       weeks_p1 = map (\<lambda>wk. \<lparr>weekMs = weekMs wk,
                                             wmap = pruneToTop (wmap wk) PRUNE_KEEP_p1\<rparr>) ws,
                       updatedAt_p1 = nowEnd w\<rparr>))
         \<and> map weekMs ws = [weekStartUtcMs (nowStart w), currentWeekMs_p1 s1]"
proof -
  let ?cur = "weekStartUtcMs (nowStart w)"
  let ?snap = "rolloverSnapshot_p1 s1 ?cur (?cur - 604800000)"
  note snap = snapshot_eq [OF assms(1,2)]
  have l: "lastProcessedBlock_p1 ?snap = Some b" by (simp add: snap)
  have wk: "weeks_p1 ?snap = [\<lparr>weekMs = ?cur, wmap = []\<rparr>,
            \<lparr>weekMs = currentWeekMs_p1 s1,
             wmap = (case findWeek (weeks_p1 s1) (currentWeekMs_p1 s1) of
                       None \<Rightarrow> [] | Some wk \<Rightarrow> wmap wk)\<rparr>]"
    by (simp add: snap)
  have m: "mergeLogs ?cur (?cur - 604800000) (weeks_p1 ?snap) ls = Inr ws"
    using assms(7) unfolding wk assms(1) .
  have sh: "map weekMs (weeks_p1 ?snap) = [?cur, ?cur - 604800000]"
    unfolding wk by (simp add: assms(1))
  have cu: "catchUp_p1 w ?snap ?cur (?cur - 604800000) latest dl
         = (tr, Some (Inr (?snap\<lparr>weeks_p1 := map (\<lambda>wk. \<lparr>weekMs = weekMs wk,
                                                     wmap = pruneToTop (wmap wk) PRUNE_KEEP_p1\<rparr>) ws,
                               lastProcessedBlock_p1 := Some latest,
                               updatedAt_p1 := nowEnd w\<rparr>)))"
    by (rule catchUp_merged [OF l assms(5,6) m sh])
  have shape: "map weekMs ws = [?cur, currentWeekMs_p1 s1]"
    using weekMs_mergeLogs [OF m sh] by (simp add: assms(1))
  show ?thesis
    unfolding rollover_p1_run [OF assms(1-4)] cu
    by (simp add: snap shape emit_def)
qed

lemma rollover_merge_error:
  assumes "currentWeekMs_p1 s1 = weekStartUtcMs (nowStart w) - 604800000"
    and "lastProcessedBlock_p1 s1 = Some b" "b \<noteq> 0"
    and "latestBlock w = Inr latest" "b < latest"
    and "incrementalScan_p1 w (b + 1) latest dl = (tr, Some (Inr ls))"
    and "mergeLogs (weekStartUtcMs (nowStart w)) (currentWeekMs_p1 s1)
           [\<lparr>weekMs = weekStartUtcMs (nowStart w), wmap = []\<rparr>,
            \<lparr>weekMs = currentWeekMs_p1 s1,
             wmap = (case findWeek (weeks_p1 s1) (currentWeekMs_p1 s1) of
                       None \<Rightarrow> [] | Some wk \<Rightarrow> wmap wk)\<rparr>] ls = Inl e"
  shows "incrementalUpdate_p1 w (Some s1) dl = (EthBlockNumber # tr, Some (Inl e))"
proof -
  let ?cur = "weekStartUtcMs (nowStart w)"
  let ?snap = "rolloverSnapshot_p1 s1 ?cur (?cur - 604800000)"
  note snap = snapshot_eq [OF assms(1,2)]
  have l: "lastProcessedBlock_p1 ?snap = Some b" by (simp add: snap)
  have wk: "weeks_p1 ?snap = [\<lparr>weekMs = ?cur, wmap = []\<rparr>,
            \<lparr>weekMs = currentWeekMs_p1 s1,
             wmap = (case findWeek (weeks_p1 s1) (currentWeekMs_p1 s1) of
                       None \<Rightarrow> [] | Some wk \<Rightarrow> wmap wk)\<rparr>]"
    by (simp add: snap)
  have m: "mergeLogs ?cur (?cur - 604800000) (weeks_p1 ?snap) ls = Inl e"
    using assms(7) unfolding wk assms(1) .
  show ?thesis
    unfolding rollover_p1_run [OF assms(1-4)] catchUp_merge_error [OF l assms(5,6) m]
    by (simp add: emit_def)
qed

lemma pruneToTop_same_totals:
  assumes "distinct (map fst m)" "length m \<le> keep"
  shows "mapGet (pruneToTop m keep) = mapGet m"
proof -
  have p: "pruneToTop m keep = sortByTotalDesc m"
    using assms(2) by (simp add: pruneToTop_eq [OF assms(1)] sortByTotalDesc_props(2))
  have "map_of (sortByTotalDesc m) = map_of m"
    using distinct_keys_sort [OF assms(1)] assms(1) sortByTotalDesc_props(1) [of m]
    by (simp add: map_of_inject_set)
  then show ?thesis by (simp add: p mapGet_def fun_eq_iff)
qed

lemma mergeLog_add:
  assumes "decodeLogData (data l) = Inr (Some (points, week))"
    and "week = c \<or> week = p" "\<bar>week\<bar> < 2 ^ 53"
  shows "mergeLog c p ws l = Inr (addPoints ws week (addrFromTopic (topic1 l)) points)"
  using assms
  by (auto simp: mergeLog_def decodeLogData_def Let_def NumberOfBigInt_small
      split: sum.splits option.splits)

lemma exRollover_scan:
  "incrementalScan_p1 exRolloverWorld 401 500 (Some 1700000008500)
   = ([EthGetLogs 401 500 (Inr exRolloverLogs)], Some (Inr exRolloverLogs))"
  by (simp add: incrementalScan_p1_def fetchLogsRange_p1_def exRolloverWorld_def exWorld_def
      deadlinePassed_def Let_def)

lemma exRollover_merge:
  "mergeLogs 1699833600000 1699228800000
     [\<lparr>weekMs = 1699833600000, wmap = []\<rparr>, \<lparr>weekMs = 1699228800000, wmap = [(''0xaa'', 5)]\<rparr>]
     exRolloverLogs
   = Inr [\<lparr>weekMs = 1699833600000, wmap = [(''0xcc'', 2)]\<rparr>,
          \<lparr>weekMs = 1699228800000, wmap = [(''0xaa'', 8)]\<rparr>]"
proof -
  let ?l1 = "\<lparr>topic1 = Some ''0xaa'', data = Some (encodeLogData 3 1699228800000)\<rparr>"
  let ?l2 = "\<lparr>topic1 = Some ''0xcc'', data = Some (encodeLogData 2 1699833600000)\<rparr>"
  have d1: "decodeLogData (data ?l1) = Inr (Some (3, 1699228800000))"
    by (simp add: decodeLogData_encode)
  have d2: "decodeLogData (data ?l2) = Inr (Some (2, 1699833600000))"
    by (simp add: decodeLogData_encode)
  have a1: "addrFromTopic (Some ''0xaa'') = ''0xaa''"
    by code_simp
  have a2: "addrFromTopic (Some ''0xcc'') = ''0xcc''"
    by code_simp
  have m1: "mergeLog 1699833600000 1699228800000 ws ?l1
            = Inr (addPoints ws 1699228800000 ''0xaa'' 3)" for ws
    using mergeLog_add [OF d1, of 1699833600000 1699228800000 ws] by (simp add: a1)
  have m2: "mergeLog 1699833600000 1699228800000 ws ?l2
            = Inr (addPoints ws 1699833600000 ''0xcc'' 2)" for ws
    using mergeLog_add [OF d2, of 1699833600000 1699228800000 ws] by (simp add: a2)
  have s1: "addPoints [\<lparr>weekMs = 1699833600000, wmap = []\<rparr>,
                       \<lparr>weekMs = 1699228800000, wmap = [(''0xaa'', 5)]\<rparr>]
              1699228800000 ''0xaa'' 3
            = [\<lparr>weekMs = 1699833600000, wmap = []\<rparr>,
               \<lparr>weekMs = 1699228800000, wmap = [(''0xaa'', 8)]\<rparr>]"
    by (simp add: addPoints_def getOrMakeWeekMap_def findWeek_def mapGet_def Let_def)
  have s2: "addPoints [\<lparr>weekMs = 1699833600000, wmap = []\<rparr>,
                       \<lparr>weekMs = 1699228800000, wmap = [(''0xaa'', 8)]\<rparr>]
              1699833600000 ''0xcc'' 2
            = [\<lparr>weekMs = 1699833600000, wmap = [(''0xcc'', 2)]\<rparr>,
               \<lparr>weekMs = 1699228800000, wmap = [(''0xaa'', 8)]\<rparr>]"
    by (simp add: addPoints_def getOrMakeWeekMap_def findWeek_def mapGet_def Let_def)
  have "mergeLogs 1699833600000 1699228800000
     [\<lparr>weekMs = 1699833600000, wmap = []\<rparr>, \<lparr>weekMs = 1699228800000, wmap = [(''0xaa'', 5)]\<rparr>]
     [?l1, ?l2]
   = Inr [\<lparr>weekMs = 1699833600000, wmap = [(''0xcc'', 2)]\<rparr>,
          \<lparr>weekMs = 1699228800000, wmap = [(''0xaa'', 8)]\<rparr>]"
    by (simp only: mergeLogs.simps m1 m2 s1 s2 sum.case)
  then show ?thesis
    unfolding exRolloverLogs_def .
qed

text \<open>
  Claim C1, as amended. In \<^verbatim>\<open>api/leaderboard.js\<close> a stored state whose week is one week
  behind the week of \<open>now\<close> is not rolled over: the update is the cold backfill of an
  absent state, whatever the old totals and cursor, and it resolves a block boundary from
  a time. The rollover snapshot is what the revision \<^verbatim>\<open>src/unnamed/part_001\<close> does
  (it has no schema version): for a state with \<open>lastProcessedBlock\<close> present and the week
  exactly one week behind, no time-to-block lookup is made and every log request starts
  after the old cursor. The snapshot (the old current-bucket totals as previous bucket, an
  empty current bucket) is where the catch-up starts from, not what the update returns:
  \<^item> when the cursor is at or beyond the latest block, nothing is fetched and the returned
    state is the snapshot, with the cursor unchanged;
  \<^item> when the cursor is behind the latest block and the scan from the block after the
    cursor returns, the returned buckets are the logs of the scan merged into the
    snapshot, each bucket pruned to its top 5000, still one bucket for each of the two
    weeks, and the cursor is the latest block;
  \<^item> in particular, when that scan finds no log, the current bucket is empty and the
    previous bucket is the top 5000 of the old current-bucket totals, which are the old
    totals themselves when the old bucket has at most 5000 addresses.
\<close>

theorem rollover_by_revision:
  assumes "currentWeekMs s = weekStartUtcMs (nowStart w) - 604800000"
    and "currentWeekMs_p1 s1 = weekStartUtcMs (nowStart w) - 604800000"
    and "lastProcessedBlock_p1 s1 = Some b" "b \<noteq> 0"
    and "latestBlock w = Inr latest"
  shows "incrementalUpdate w (Some s) deadlineMs = incrementalUpdate w None deadlineMs
       \<and> (case latestBlock2 w of
            Inl e \<Rightarrow> True
          | Inr l2 \<Rightarrow> BaseScanBlockByTime ((weekStartUtcMs (nowStart w) - 604800000) div 1000 - 3600)
                       \<in> set (fst (incrementalUpdate w (Some s) deadlineMs)))
       \<and> (\<forall>c \<in> set (fst (incrementalUpdate_p1 w (Some s1) deadlineMs)). \<not> isTimeLookup c)
       \<and> (\<forall>q \<in> set (requestedRanges (fst (incrementalUpdate_p1 w (Some s1) deadlineMs))).
             b + 1 \<le> fst q)
       \<and> (latest \<le> b \<longrightarrow>
            incrementalUpdate_p1 w (Some s1) deadlineMs
            = ([EthBlockNumber],
               Some (Inr \<lparr>currentWeekMs_p1 = weekStartUtcMs (nowStart w),
                          lastWeekMs_p1 = currentWeekMs_p1 s1,
                          lastProcessedBlock_p1 = Some b,
                          weeks_p1 =
                            [\<lparr>weekMs = weekStartUtcMs (nowStart w), wmap = []\<rparr>,
                             \<lparr>weekMs = currentWeekMs_p1 s1,
                              wmap = (case findWeek (weeks_p1 s1) (currentWeekMs_p1 s1) of
                                        None \<Rightarrow> [] | Some wk \<Rightarrow> wmap wk)\<rparr>],
                          updatedAt_p1 = nowEnd w\<rparr>)))
       \<and> (b < latest
          \<and> incrementalScan_p1 w (b + 1) latest deadlineMs = (tr, Some (Inr ls))
          \<and> mergeLogs (weekStartUtcMs (nowStart w)) (currentWeekMs_p1 s1)
               [\<lparr>weekMs = weekStartUtcMs (nowStart w), wmap = []\<rparr>,
                \<lparr>weekMs = currentWeekMs_p1 s1,
                 wmap = (case findWeek (weeks_p1 s1) (currentWeekMs_p1 s1) of
                           None \<Rightarrow> [] | Some wk \<Rightarrow> wmap wk)\<rparr>] ls = Inr ws \<longrightarrow>
            incrementalUpdate_p1 w (Some s1) deadlineMs
            = (EthBlockNumber # tr,
               Some (Inr \<lparr>currentWeekMs_p1 = weekStartUtcMs (nowStart w),
                          lastWeekMs_p1 = currentWeekMs_p1 s1,
                          lastProcessedBlock_p1 = Some latest,
                          weeks_p1 = map (\<lambda>wk. \<lparr>weekMs = weekMs wk,
                                                wmap = pruneToTop (wmap wk) PRUNE_KEEP_p1\<rparr>) ws,
                          updatedAt_p1 = nowEnd w\<rparr>))
            \<and> map weekMs ws = [weekStartUtcMs (nowStart w), currentWeekMs_p1 s1])
       \<and> (b < latest
          \<and> incrementalScan_p1 w (b + 1) latest deadlineMs = (tr, Some (Inr [])) \<longrightarrow>
            incrementalUpdate_p1 w (Some s1) deadlineMs
            = (EthBlockNumber # tr,
               Some (Inr \<lparr>currentWeekMs_p1 = weekStartUtcMs (nowStart w),
                          lastWeekMs_p1 = currentWeekMs_p1 s1,
                          lastProcessedBlock_p1 = Some latest,
                          weeks_p1 =
                            [\<lparr>weekMs = weekStartUtcMs (nowStart w), wmap = []\<rparr>,
                             \<lparr>weekMs = currentWeekMs_p1 s1,
                              wmap = pruneToTop
                                       (case findWeek (weeks_p1 s1) (currentWeekMs_p1 s1) of
                                          None \<Rightarrow> [] | Some wk \<Rightarrow> wmap wk)
                                       PRUNE_KEEP_p1\<rparr>],
                          updatedAt_p1 = nowEnd w\<rparr>)))
       \<and> (distinct (map fst (case findWeek (weeks_p1 s1) (currentWeekMs_p1 s1) of
                                None \<Rightarrow> [] | Some wk \<Rightarrow> wmap wk))
          \<and> length (case findWeek (weeks_p1 s1) (currentWeekMs_p1 s1) of
                      None \<Rightarrow> [] | Some wk \<Rightarrow> wmap wk) \<le> PRUNE_KEEP_p1 \<longrightarrow>
            mapGet (pruneToTop (case findWeek (weeks_p1 s1) (currentWeekMs_p1 s1) of
                                  None \<Rightarrow> [] | Some wk \<Rightarrow> wmap wk) PRUNE_KEEP_p1)
            = mapGet (case findWeek (weeks_p1 s1) (currentWeekMs_p1 s1) of
                        None \<Rightarrow> [] | Some wk \<Rightarrow> wmap wk))"
proof (intro conjI)
  let ?cur = "weekStartUtcMs (nowStart w)"
  let ?prev = "?cur - 604800000"
  let ?snap = "rolloverSnapshot_p1 s1 ?cur ?prev"
  let ?old = "case findWeek (weeks_p1 s1) (currentWeekMs_p1 s1) of
                None \<Rightarrow> [] | Some wk \<Rightarrow> wmap wk"
  have ne: "currentWeekMs s \<noteq> ?cur" using assms(1) by simp
  show cold: "incrementalUpdate w (Some s) deadlineMs = incrementalUpdate w None deadlineMs"
    using ne by (rule cold_when_week_differs)
  show "case latestBlock2 w of
            Inl e \<Rightarrow> True
          | Inr l2 \<Rightarrow> BaseScanBlockByTime (?prev div 1000 - 3600)
                       \<in> set (fst (incrementalUpdate w (Some s) deadlineMs))"
  proof (cases "latestBlock2 w")
    case (Inl e)
    then show ?thesis by simp
  next
    case (Inr l2)
    obtain tr where "fst (backfillTwoWeeks w (nowStart w) deadlineMs)
           = EthBlockNumber # BaseScanBlockByTime (?prev div 1000 - 3600) # tr"
      using backfill_trace [OF Inr, of "nowStart w" deadlineMs] by blast
    then show ?thesis
      by (simp add: Inr cold cold_run [OF assms(5)] emit_def)
  qed
  note run = rollover_p1_run [OF assms(2-5), of deadlineMs]
  obtain tr0 res where cu: "catchUp_p1 w ?snap ?cur ?prev latest deadlineMs = (tr0, res)"
    by (cases "catchUp_p1 w ?snap ?cur ?prev latest deadlineMs")
  have sl: "lastProcessedBlock_p1 ?snap = Some b"
    using assms(3) by (simp add: rolloverSnapshot_p1_def Let_def)
  have fst_run: "fst (incrementalUpdate_p1 w (Some s1) deadlineMs) = EthBlockNumber # tr0"
    by (simp add: run cu)
  note calls = catchUp_p1_calls [OF cu sl]
  show "\<forall>c \<in> set (fst (incrementalUpdate_p1 w (Some s1) deadlineMs)). \<not> isTimeLookup c"
    using calls by (simp add: fst_run)
  show "\<forall>q \<in> set (requestedRanges (fst (incrementalUpdate_p1 w (Some s1) deadlineMs))).
             b + 1 \<le> fst q"
    using calls by (simp add: fst_run)
  show "latest \<le> b \<longrightarrow>
            incrementalUpdate_p1 w (Some s1) deadlineMs
            = ([EthBlockNumber],
               Some (Inr \<lparr>currentWeekMs_p1 = ?cur,
                          lastWeekMs_p1 = currentWeekMs_p1 s1,
                          lastProcessedBlock_p1 = Some b,
                          weeks_p1 =
                            [\<lparr>weekMs = ?cur, wmap = []\<rparr>,
                             \<lparr>weekMs = currentWeekMs_p1 s1, wmap = ?old\<rparr>],
                          updatedAt_p1 = nowEnd w\<rparr>))"
    using snapshot_returned [OF assms(2-5), of deadlineMs] by blast
  show "b < latest
          \<and> incrementalScan_p1 w (b + 1) latest deadlineMs = (tr, Some (Inr ls))
          \<and> mergeLogs ?cur (currentWeekMs_p1 s1)
               [\<lparr>weekMs = ?cur, wmap = []\<rparr>,
                \<lparr>weekMs = currentWeekMs_p1 s1, wmap = ?old\<rparr>] ls = Inr ws \<longrightarrow>
            incrementalUpdate_p1 w (Some s1) deadlineMs
            = (EthBlockNumber # tr,
               Some (Inr \<lparr>currentWeekMs_p1 = ?cur,
                          lastWeekMs_p1 = currentWeekMs_p1 s1,
                          lastProcessedBlock_p1 = Some latest,
                          weeks_p1 = map (\<lambda>wk. \<lparr>weekMs = weekMs wk,
                                                wmap = pruneToTop (wmap wk) PRUNE_KEEP_p1\<rparr>) ws,
                          updatedAt_p1 = nowEnd w\<rparr>))
            \<and> map weekMs ws = [?cur, currentWeekMs_p1 s1]"
    using rollover_merged [OF assms(2-5), of deadlineMs tr ls ws] by blast
  show "b < latest
          \<and> incrementalScan_p1 w (b + 1) latest deadlineMs = (tr, Some (Inr [])) \<longrightarrow>
            incrementalUpdate_p1 w (Some s1) deadlineMs
            = (EthBlockNumber # tr,
               Some (Inr \<lparr>currentWeekMs_p1 = ?cur,
                          lastWeekMs_p1 = currentWeekMs_p1 s1,
                          lastProcessedBlock_p1 = Some latest,
                          weeks_p1 =
                            [\<lparr>weekMs = ?cur, wmap = []\<rparr>,
                             \<lparr>weekMs = currentWeekMs_p1 s1,
                              wmap = pruneToTop ?old PRUNE_KEEP_p1\<rparr>],
                          updatedAt_p1 = nowEnd w\<rparr>))"
  proof
    assume a: "b < latest
          \<and> incrementalScan_p1 w (b + 1) latest deadlineMs = (tr, Some (Inr []))"
    have m: "mergeLogs ?cur (currentWeekMs_p1 s1)
               [\<lparr>weekMs = ?cur, wmap = []\<rparr>,
                \<lparr>weekMs = currentWeekMs_p1 s1, wmap = ?old\<rparr>] []
             = Inr [\<lparr>weekMs = ?cur, wmap = []\<rparr>,
                    \<lparr>weekMs = currentWeekMs_p1 s1, wmap = ?old\<rparr>]"
      by simp
    from a have lt: "b < latest"
      and sc: "incrementalScan_p1 w (b + 1) latest deadlineMs = (tr, Some (Inr []))"
      by simp_all
    show "incrementalUpdate_p1 w (Some s1) deadlineMs
            = (EthBlockNumber # tr,
               Some (Inr \<lparr>currentWeekMs_p1 = ?cur,
                          lastWeekMs_p1 = currentWeekMs_p1 s1,
                          lastProcessedBlock_p1 = Some latest,
                          weeks_p1 =
                            [\<lparr>weekMs = ?cur, wmap = []\<rparr>,
                             \<lparr>weekMs = currentWeekMs_p1 s1,
                              wmap = pruneToTop ?old PRUNE_KEEP_p1\<rparr>],
                          updatedAt_p1 = nowEnd w\<rparr>))"
      using rollover_merged [OF assms(2-5) lt sc m] by simp
  qed
  show "distinct (map fst ?old) \<and> length ?old \<le> PRUNE_KEEP_p1 \<longrightarrow>
            mapGet (pruneToTop ?old PRUNE_KEEP_p1) = mapGet ?old"
    using pruneToTop_same_totals [of ?old PRUNE_KEEP_p1] by blast
qed

theorem rollover_by_revision_witness:
  "currentWeekMs (exState 1699228800000 400)
     = weekStartUtcMs (nowStart exRolloverWorld) - 604800000
   \<and> currentWeekMs_p1 (exState_p1 1699228800000 400)
       = weekStartUtcMs (nowStart exRolloverWorld) - 604800000
   \<and> lastProcessedBlock_p1 (exState_p1 1699228800000 400) = Some 400 \<and> (400::int) \<noteq> 0
   \<and> latestBlock exRolloverWorld = Inr 500 \<and> (400::int) < 500
   \<and> incrementalScan_p1 exRolloverWorld (400 + 1) 500 (Some 1700000008500)
       = ([EthGetLogs 401 500 (Inr exRolloverLogs)], Some (Inr exRolloverLogs))
   \<and> mergeLogs 1699833600000 1699228800000
       [\<lparr>weekMs = 1699833600000, wmap = []\<rparr>, \<lparr>weekMs = 1699228800000, wmap = [(''0xaa'', 5)]\<rparr>]
       exRolloverLogs
     = Inr [\<lparr>weekMs = 1699833600000, wmap = [(''0xcc'', 2)]\<rparr>,
            \<lparr>weekMs = 1699228800000, wmap = [(''0xaa'', 8)]\<rparr>]
   \<and> incrementalUpdate_p1 exRolloverWorld (Some (exState_p1 1699228800000 400))
       (Some 1700000008500)
       = ([EthBlockNumber, EthGetLogs 401 500 (Inr exRolloverLogs)],
          Some (Inr \<lparr>currentWeekMs_p1 = 1699833600000, lastWeekMs_p1 = 1699228800000,
                     lastProcessedBlock_p1 = Some 500,
                     weeks_p1 = [\<lparr>weekMs = 1699833600000, wmap = [(''0xcc'', 2)]\<rparr>,
                                 \<lparr>weekMs = 1699228800000, wmap = [(''0xaa'', 8)]\<rparr>],
                     updatedAt_p1 = 1700000000900\<rparr>))
   \<and> latestBlock (exWorld []) = Inr 500 \<and> (500::int) \<le> 500
   \<and> incrementalUpdate_p1 (exWorld []) (Some (exState_p1 1699228800000 500)) (Some 1700000008500)
       = ([EthBlockNumber],
          Some (Inr \<lparr>currentWeekMs_p1 = 1699833600000, lastWeekMs_p1 = 1699228800000,
                     lastProcessedBlock_p1 = Some 500,
                     weeks_p1 = [\<lparr>weekMs = 1699833600000, wmap = []\<rparr>,
                                 \<lparr>weekMs = 1699228800000, wmap = [(''0xaa'', 5)]\<rparr>],
                     updatedAt_p1 = 1700000000900\<rparr>))"
proof -
  let ?w = "exRolloverWorld"
  let ?s1 = "exState_p1 1699228800000 400"
  have v: "weekStartUtcMs (nowStart ?w) = 1699833600000" "nowEnd ?w = 1700000000900"
    by (simp_all add: exRolloverWorld_def exWorld_def weekStart_example)
  have a1: "currentWeekMs (exState 1699228800000 400) = weekStartUtcMs (nowStart ?w) - 604800000"
    by (simp add: exState_def v)
  have a2: "currentWeekMs_p1 ?s1 = weekStartUtcMs (nowStart ?w) - 604800000"
    by (simp add: exState_p1_def v)
  have a3: "lastProcessedBlock_p1 ?s1 = Some 400"
    by (simp add: exState_p1_def)
  have a4: "(400::int) \<noteq> 0" by simp
  have a5: "latestBlock ?w = Inr 500" by (simp add: exRolloverWorld_def exWorld_def)
  have f: "findWeek (weeks_p1 ?s1) 1699228800000
           = Some \<lparr>weekMs = 1699228800000, wmap = [(''0xaa'', 5)]\<rparr>"
    by (simp add: exState_p1_def findWeek_def)
  have c: "currentWeekMs_p1 ?s1 = 1699228800000"
    by (simp add: exState_p1_def)
  have sc: "incrementalScan_p1 ?w (400 + 1) 500 (Some 1700000008500)
       = ([EthGetLogs 401 500 (Inr exRolloverLogs)], Some (Inr exRolloverLogs))"
    using exRollover_scan by simp
  have p: "pruneToTop [(''0xcc'', 2)] PRUNE_KEEP_p1 = [(''0xcc'', 2)]"
    "pruneToTop [(''0xaa'', 8)] PRUNE_KEEP_p1 = [(''0xaa'', 8)]"
    by (simp_all add: pruneToTop_eq sortByTotalDesc_def PRUNE_KEEP_p1_def)
  have real: "incrementalUpdate_p1 ?w (Some ?s1) (Some 1700000008500)
       = ([EthBlockNumber, EthGetLogs 401 500 (Inr exRolloverLogs)],
          Some (Inr \<lparr>currentWeekMs_p1 = 1699833600000, lastWeekMs_p1 = 1699228800000,
                     lastProcessedBlock_p1 = Some 500,
                     weeks_p1 = [\<lparr>weekMs = 1699833600000, wmap = [(''0xcc'', 2)]\<rparr>,
                                 \<lparr>weekMs = 1699228800000, wmap = [(''0xaa'', 8)]\<rparr>],
                     updatedAt_p1 = 1700000000900\<rparr>))"
    using rollover_by_revision [OF a1 a2 a3 a4 a5, of "Some 1700000008500"
        "[EthGetLogs 401 500 (Inr exRolloverLogs)]" exRolloverLogs
        "[\<lparr>weekMs = 1699833600000, wmap = [(''0xcc'', 2)]\<rparr>,
          \<lparr>weekMs = 1699228800000, wmap = [(''0xaa'', 8)]\<rparr>]"]
      sc exRollover_merge
    by (simp add: v f c p)
  let ?w0 = "exWorld []"
  let ?s0 = "exState_p1 1699228800000 500"
  have v0: "weekStartUtcMs (nowStart ?w0) = 1699833600000" "nowEnd ?w0 = 1700000000900"
    by (simp_all add: exWorld_def weekStart_example)
  have b1: "currentWeekMs (exState 1699228800000 400) = weekStartUtcMs (nowStart ?w0) - 604800000"
    by (simp add: exState_def v0)
  have b2: "currentWeekMs_p1 ?s0 = weekStartUtcMs (nowStart ?w0) - 604800000"
    by (simp add: exState_p1_def v0)
  have b3: "lastProcessedBlock_p1 ?s0 = Some 500"
    by (simp add: exState_p1_def)
  have b4: "(500::int) \<noteq> 0" by simp
  have b5: "latestBlock ?w0 = Inr 500" by (simp add: exWorld_def)
  have f0: "findWeek (weeks_p1 ?s0) 1699228800000
           = Some \<lparr>weekMs = 1699228800000, wmap = [(''0xaa'', 5)]\<rparr>"
    by (simp add: exState_p1_def findWeek_def)
  have c0: "currentWeekMs_p1 ?s0 = 1699228800000"
    by (simp add: exState_p1_def)
  have idle: "incrementalUpdate_p1 ?w0 (Some ?s0) (Some 1700000008500)
       = ([EthBlockNumber],
          Some (Inr \<lparr>currentWeekMs_p1 = 1699833600000, lastWeekMs_p1 = 1699228800000,
                     lastProcessedBlock_p1 = Some 500,
                     weeks_p1 = [\<lparr>weekMs = 1699833600000, wmap = []\<rparr>,
                                 \<lparr>weekMs = 1699228800000, wmap = [(''0xaa'', 5)]\<rparr>],
                     updatedAt_p1 = 1700000000900\<rparr>))"
    using rollover_by_revision [OF b1 b2 b3 b4 b5, of "Some 1700000008500"]
    by (simp add: v0 f0 c0)
  show ?thesis
    using a1 a2 a3 a5 sc exRollover_merge real b5 idle by simp
qed

text \<open>
  Claim C1 as stated fails on \<^verbatim>\<open>api/leaderboard.js\<close>: a state of schema version 4, one
  week behind, with totals in its current bucket and its cursor at block 400, comes back
  from a cold backfill: the call trace has the time-to-block lookup, both buckets are
  empty (the explorer returned no log), and the cursor is the latest block.
\<close>

theorem week_advance_backfills:
  "incrementalUpdate (exWorld []) (Some (exState 1699228800000 400)) (Some 1700000008500)
   = ([EthBlockNumber, EthBlockNumber, BaseScanBlockByTime 1699225200, BaseScanGetLogs 100 500],
      Some (Inr \<lparr>schemaVersion = 4, backfillFromBlock = Some 100, anchorTsSec = 1699225200,
                 currentWeekMs = 1699833600000, lastWeekMs = 1699228800000,
                 lastProcessedBlock = Some 500,
                 weeks = [\<lparr>weekMs = 1699833600000, wmap = []\<rparr>,
                          \<lparr>weekMs = 1699228800000, wmap = []\<rparr>],
                 updatedAt = 1700000000900\<rparr>))"
proof -
  have bs: "backfillScan (exWorld []) 100 500 (Some 1700000008500)
     = ([BaseScanGetLogs 100 500],
        Some (Inr \<lparr>logs = [], lastScannedBlock = 500, complete = True\<rparr>))"
    by (simp add: backfillScan_def exWorld_def)
  have rf: "resolveFromBlock (exWorld []) 1699225200 500 = ([BaseScanBlockByTime 1699225200], 100)"
    by (simp add: resolveFromBlock_def exWorld_def)
  have v: "weekStartUtcMs (nowStart (exWorld [])) = 1699833600000"
    "latestBlock (exWorld []) = Inr 500" "latestBlock2 (exWorld []) = Inr 500"
    "nowEnd (exWorld []) = 1700000000900" "nowInit (exWorld []) = 1700000000100"
    by (simp_all add: exWorld_def weekStart_example)
  have bf: "backfillTwoWeeks (exWorld []) (nowStart (exWorld [])) (Some 1700000008500)
     = ([EthBlockNumber, BaseScanBlockByTime 1699225200, BaseScanGetLogs 100 500],
      Some (Inr \<lparr>schemaVersion = 4, backfillFromBlock = Some 100, anchorTsSec = 1699225200,
                 currentWeekMs = 1699833600000, lastWeekMs = 1699228800000,
                 lastProcessedBlock = Some 500,
                 weeks = [\<lparr>weekMs = 1699833600000, wmap = []\<rparr>,
                          \<lparr>weekMs = 1699228800000, wmap = []\<rparr>],
                 updatedAt = 1700000000900\<rparr>))"
    by (simp add: backfillTwoWeeks_def Let_def v rf bs emptyWeekState_def STATE_SCHEMA_VERSION_def)
  have ne: "currentWeekMs (exState 1699228800000 400) \<noteq> weekStartUtcMs (nowStart (exWorld []))"
    by (simp add: v exState_def)
  show ?thesis
    by (simp add: cold_when_week_differs [OF ne] cold_run [OF v(2)] bf)
qed

section \<open>The handler answers 200 and releases the lock on every error\<close>

lemma refreshAndRespond_sent:
  assumes "refreshAndRespond hw includeNames = (effs, Some (Inr resp))"
  shows "fst resp = 200 \<and> effs \<noteq> [] \<and> last effs = Send 200 (snd resp)"
  using assms
  by (auto simp: refreshAndRespond_def Let_def
      split: sum.splits option.splits prod.splits if_splits)

lemma handlerTry_sent:
  assumes "handlerTry hw refresh includeNames = (effs, Some (Inr resp))"
  shows "fst resp = 200 \<and> effs \<noteq> [] \<and> last effs = Send 200 (snd resp)"
proof -
  obtain effs0 res0 where r: "refreshAndRespond hw includeNames = (effs0, res0)"
    by (cases "refreshAndRespond hw includeNames")
  have sent: "fst resp = 200 \<and> effs0 \<noteq> [] \<and> last effs0 = Send 200 (snd resp)"
    if "res0 = Some (Inr resp)"
    using refreshAndRespond_sent [of hw includeNames effs0 resp] r that by simp
  from assms r consider
      (fast) c where "effs = [GetCached, Send 200 c]" "resp = (200, c)"
    | (busy) pre c where "effs = pre @ [AcquireLock, GetCached, Send 200 (withBusy c)]"
        "resp = (200, withBusy c)"
    | (fresh) pre where "effs = pre @ effs0" "res0 = Some (Inr resp)"
    by (auto simp: handlerTry_def Let_def split: sum.splits option.splits if_splits)
  then show ?thesis
  proof cases
    case fast
    then show ?thesis by simp
  next
    case busy
    then show ?thesis by simp
  next
    case fresh
    then show ?thesis using sent [OF fresh(2)] by simp
  qed
qed

lemma handler_status:
  "case handler hw refresh includeNames of
      None \<Rightarrow> True
    | Some (effs, status, body) \<Rightarrow> status = 200 \<and> effs \<noteq> [] \<and> last effs = Send 200 body"
proof -
  obtain effs res where t: "handlerTry hw refresh includeNames = (effs, res)"
    by (cases "handlerTry hw refresh includeNames")
  show ?thesis
  proof (cases res)
    case None
    then show ?thesis by (simp add: handler_def t)
  next
    case (Some r)
    show ?thesis
    proof (cases r)
      case (Inl e)
      then show ?thesis by (simp add: handler_def t Some)
    next
      case (Inr resp)
      then show ?thesis
        using handlerTry_sent [of hw refresh includeNames effs resp] t Some
        by (cases resp) (simp add: handler_def)
    qed
  qed
qed

text \<open>An error that leaves the \<^verbatim>\<open>try\<close> block reaches the \<^verbatim>\<open>catch\<close> block.\<close>

lemma handler_of_error:
  assumes "handlerTry hw refresh includeNames = (effs, Some (Inl e))"
  shows "handler hw refresh includeNames
         = Some (effs @ [ReleaseLock, Send 200 (errorEnvelope e)], 200, errorEnvelope e)"
  using assms by (simp add: handler_def)

text \<open>The two reads of the cache.\<close>

lemma handler_cache_error:
  assumes "\<not> refresh" "cached1 hw = Inl e"
  shows "handler hw refresh includeNames
         = Some ([GetCached, ReleaseLock, Send 200 (errorEnvelope e)], 200, errorEnvelope e)"
  using assms by (simp add: handler_def handlerTry_def Let_def)

lemma handler_cache2_error:
  assumes "\<not> refresh" "cached1 hw = Inr None" "\<not> lockGranted hw" "cached2 hw = Inl e"
  shows "handler hw refresh includeNames
         = Some ([GetCached, AcquireLock, GetCached, ReleaseLock, Send 200 (errorEnvelope e)],
                 200, errorEnvelope e)"
  using assms by (simp add: handler_def handlerTry_def Let_def)

text \<open>From the state read on: the \<^verbatim>\<open>try\<close> block is the refresh, after the effects so far.\<close>

lemma handlerTry_refresh:
  assumes "reachesRefresh hw refresh"
  shows "handlerTry hw refresh includeNames
         = (effectsBeforeRefresh hw refresh @ fst (refreshAndRespond hw includeNames),
            snd (refreshAndRespond hw includeNames))"
  using assms
  by (cases "refreshAndRespond hw includeNames")
    (auto simp: handlerTry_def reachesRefresh_def effectsBeforeRefresh_def Let_def)

lemma handler_refresh_error:
  assumes "reachesRefresh hw refresh"
    and "refreshAndRespond hw includeNames = (effs, Some (Inl e))"
  shows "handler hw refresh includeNames
         = Some (effectsBeforeRefresh hw refresh @ effs @ [ReleaseLock, Send 200 (errorEnvelope e)],
                 200, errorEnvelope e)"
  using handler_of_error [of hw refresh includeNames "effectsBeforeRefresh hw refresh @ effs" e]
    handlerTry_refresh [OF assms(1), of includeNames] assms(2)
  by simp

lemma refresh_load_error:
  assumes "storedState hw = Inl e"
  shows "refreshAndRespond hw includeNames = ([LoadState], Some (Inl e))"
  using assms by (simp add: refreshAndRespond_def Let_def)

lemma refresh_update_error:
  assumes "storedState hw = Inr st"
    and "incrementalUpdate (updateWorld hw) st (Some (started hw + MAX_SERVERLESS_MS))
         = (tr, Some (Inl e))"
  shows "refreshAndRespond hw includeNames = ([LoadState, Update tr], Some (Inl e))"
  using assms by (simp add: refreshAndRespond_def Let_def)

lemma refresh_names_error:
  assumes "storedState hw = Inr st"
    and "incrementalUpdate (updateWorld hw) st (Some (started hw + MAX_SERVERLESS_MS))
         = (tr, Some (Inr upd))"
    and "wantsNames hw includeNames" "names hw = Inl e"
  shows "refreshAndRespond hw includeNames = ([LoadState, Update tr, FetchNames], Some (Inl e))"
  using assms by (simp add: refreshAndRespond_def wantsNames_def Let_def)

lemma refresh_saveState_error:
  assumes "storedState hw = Inr st"
    and "incrementalUpdate (updateWorld hw) st (Some (started hw + MAX_SERVERLESS_MS))
         = (tr, Some (Inr upd))"
    and "(if wantsNames hw includeNames then names hw else Inr []) = Inr nameMap"
    and "saveState hw = Some e"
  shows "refreshAndRespond hw includeNames
         = ([LoadState, Update tr] @ (if wantsNames hw includeNames then [FetchNames] else [])
              @ [SaveState (serializeState upd)],
            Some (Inl e))"
  using assms by (simp add: refreshAndRespond_def wantsNames_def Let_def)

lemma refresh_saveResp_error:
  assumes "storedState hw = Inr st"
    and "incrementalUpdate (updateWorld hw) st (Some (started hw + MAX_SERVERLESS_MS))
         = (tr, Some (Inr upd))"
    and "(if wantsNames hw includeNames then names hw else Inr []) = Inr nameMap"
    and "saveState hw = None" "saveResp hw = Some e"
  shows "refreshAndRespond hw includeNames
         = ([LoadState, Update tr] @ (if wantsNames hw includeNames then [FetchNames] else [])
              @ [SaveState (serializeState upd),
                 SaveResp (formatResponsePayload upd includeNames
                             (if wantsNames hw includeNames then Some nameMap else None))],
            Some (Inl e))"
  using assms by (simp add: refreshAndRespond_def wantsNames_def Let_def)

lemma ex_update_noop:
  "incrementalUpdate (exWorld []) (Some (exState 1699833600000 500)) deadlineMs
   = ([EthBlockNumber], Some (Inr ((exState 1699833600000 500)\<lparr>updatedAt := 1700000000900\<rparr>)))"
  by (simp add: incrementalUpdate_def exWorld_def exState_def weekStart_example bigTruthy_def
      STATE_SCHEMA_VERSION_def Let_def emit_def)

text \<open>
  Claim C9. An error thrown by any step of the handler's \<^verbatim>\<open>try\<close> block reaches the
  \<^verbatim>\<open>catch\<close> block: the handler then calls \<^verbatim>\<open>storeReleaseLock\<close> and, after it, sends the
  error envelope with status 200, whose \<open>ok\<close> field is \<open>false\<close>; nothing of the \<^verbatim>\<open>try\<close>
  block runs after the step that threw. The steps are, in order: the first read of the
  cache (when no refresh is forced); the second read of the cache (when the lock was
  refused); the read of the stored state; the update; the name lookup (when names are asked
  for and more than 500 ms of the budget are left); the write of the state; the write of the
  response. Every response the handler sends, on whatever path, has status 200 and is its
  last effect.
\<close>

theorem handler_error_envelope:
  "(case handler hw refresh includeNames of
      None \<Rightarrow> True
    | Some (effs, status, body) \<Rightarrow> status = 200 \<and> effs \<noteq> [] \<and> last effs = Send 200 body)
   \<and> objGet (errorEnvelope e) ''ok'' = Some (JBool False)
   \<and> (\<not> refresh \<and> cached1 hw = Inl e \<longrightarrow>
        handler hw refresh includeNames
        = Some ([GetCached, ReleaseLock, Send 200 (errorEnvelope e)], 200, errorEnvelope e))
   \<and> (\<not> refresh \<and> cached1 hw = Inr None \<and> \<not> lockGranted hw \<and> cached2 hw = Inl e \<longrightarrow>
        handler hw refresh includeNames
        = Some ([GetCached, AcquireLock, GetCached, ReleaseLock, Send 200 (errorEnvelope e)],
                200, errorEnvelope e))
   \<and> (reachesRefresh hw refresh \<and> storedState hw = Inl e \<longrightarrow>
        handler hw refresh includeNames
        = Some (effectsBeforeRefresh hw refresh
                  @ [LoadState, ReleaseLock, Send 200 (errorEnvelope e)],
                200, errorEnvelope e))
   \<and> (reachesRefresh hw refresh \<and> storedState hw = Inr st
      \<and> incrementalUpdate (updateWorld hw) st (Some (started hw + MAX_SERVERLESS_MS))
          = (tr, Some (Inl e)) \<longrightarrow>
        handler hw refresh includeNames
        = Some (effectsBeforeRefresh hw refresh
                  @ [LoadState, Update tr, ReleaseLock, Send 200 (errorEnvelope e)],
                200, errorEnvelope e))
   \<and> (reachesRefresh hw refresh \<and> storedState hw = Inr st
      \<and> incrementalUpdate (updateWorld hw) st (Some (started hw + MAX_SERVERLESS_MS))
          = (tr, Some (Inr upd))
      \<and> wantsNames hw includeNames \<and> names hw = Inl e \<longrightarrow>
        handler hw refresh includeNames
        = Some (effectsBeforeRefresh hw refresh
                  @ [LoadState, Update tr, FetchNames, ReleaseLock, Send 200 (errorEnvelope e)],
                200, errorEnvelope e))
   \<and> (reachesRefresh hw refresh \<and> storedState hw = Inr st
      \<and> incrementalUpdate (updateWorld hw) st (Some (started hw + MAX_SERVERLESS_MS))
          = (tr, Some (Inr upd))
      \<and> (if wantsNames hw includeNames then names hw else Inr []) = Inr nameMap
      \<and> saveState hw = Some e \<longrightarrow>
        handler hw refresh includeNames
        = Some (effectsBeforeRefresh hw refresh
                  @ [LoadState, Update tr]
                  @ (if wantsNames hw includeNames then [FetchNames] else [])
                  @ [SaveState (serializeState upd), ReleaseLock, Send 200 (errorEnvelope e)],
                200, errorEnvelope e))
   \<and> (reachesRefresh hw refresh \<and> storedState hw = Inr st
      \<and> incrementalUpdate (updateWorld hw) st (Some (started hw + MAX_SERVERLESS_MS))
          = (tr, Some (Inr upd))
      \<and> (if wantsNames hw includeNames then names hw else Inr []) = Inr nameMap
      \<and> saveState hw = None \<and> saveResp hw = Some e \<longrightarrow>
        handler hw refresh includeNames
        = Some (effectsBeforeRefresh hw refresh
                  @ [LoadState, Update tr]
                  @ (if wantsNames hw includeNames then [FetchNames] else [])
                  @ [SaveState (serializeState upd),
                     SaveResp (formatResponsePayload upd includeNames
                                 (if wantsNames hw includeNames then Some nameMap else None)),
                     ReleaseLock, Send 200 (errorEnvelope e)],
                200, errorEnvelope e))"
proof (intro conjI impI)
  show "case handler hw refresh includeNames of
      None \<Rightarrow> True
    | Some (effs, status, body) \<Rightarrow> status = 200 \<and> effs \<noteq> [] \<and> last effs = Send 200 body"
    by (rule handler_status)
next
  show "objGet (errorEnvelope e) ''ok'' = Some (JBool False)"
    by (simp add: errorEnvelope_def objGet_def)
next
  assume "\<not> refresh \<and> cached1 hw = Inl e"
  then show "handler hw refresh includeNames
        = Some ([GetCached, ReleaseLock, Send 200 (errorEnvelope e)], 200, errorEnvelope e)"
    using handler_cache_error [of refresh hw e includeNames] by simp
next
  assume "\<not> refresh \<and> cached1 hw = Inr None \<and> \<not> lockGranted hw \<and> cached2 hw = Inl e"
  then show "handler hw refresh includeNames
        = Some ([GetCached, AcquireLock, GetCached, ReleaseLock, Send 200 (errorEnvelope e)],
                200, errorEnvelope e)"
    using handler_cache2_error [of refresh hw e includeNames] by simp
next
  assume a: "reachesRefresh hw refresh \<and> storedState hw = Inl e"
  then have "refreshAndRespond hw includeNames = ([LoadState], Some (Inl e))"
    by (simp add: refresh_load_error)
  then show "handler hw refresh includeNames
        = Some (effectsBeforeRefresh hw refresh
                  @ [LoadState, ReleaseLock, Send 200 (errorEnvelope e)],
                200, errorEnvelope e)"
    using handler_refresh_error [of hw refresh includeNames "[LoadState]" e] a by simp
next
  assume a: "reachesRefresh hw refresh \<and> storedState hw = Inr st
      \<and> incrementalUpdate (updateWorld hw) st (Some (started hw + MAX_SERVERLESS_MS))
          = (tr, Some (Inl e))"
  then have "refreshAndRespond hw includeNames = ([LoadState, Update tr], Some (Inl e))"
    using refresh_update_error [of hw st tr e includeNames] by simp
  then show "handler hw refresh includeNames
        = Some (effectsBeforeRefresh hw refresh
                  @ [LoadState, Update tr, ReleaseLock, Send 200 (errorEnvelope e)],
                200, errorEnvelope e)"
    using handler_refresh_error [of hw refresh includeNames "[LoadState, Update tr]" e] a
    by simp
next
  assume a: "reachesRefresh hw refresh \<and> storedState hw = Inr st
      \<and> incrementalUpdate (updateWorld hw) st (Some (started hw + MAX_SERVERLESS_MS))
          = (tr, Some (Inr upd))
      \<and> wantsNames hw includeNames \<and> names hw = Inl e"
  then have "refreshAndRespond hw includeNames
             = ([LoadState, Update tr, FetchNames], Some (Inl e))"
    using refresh_names_error [of hw st tr upd includeNames e] by simp
  then show "handler hw refresh includeNames
        = Some (effectsBeforeRefresh hw refresh
                  @ [LoadState, Update tr, FetchNames, ReleaseLock, Send 200 (errorEnvelope e)],
                200, errorEnvelope e)"
    using handler_refresh_error
      [of hw refresh includeNames "[LoadState, Update tr, FetchNames]" e] a
    by simp
next
  let ?pre = "[LoadState, Update tr] @ (if wantsNames hw includeNames then [FetchNames] else [])
              @ [SaveState (serializeState upd)]"
  assume a: "reachesRefresh hw refresh \<and> storedState hw = Inr st
      \<and> incrementalUpdate (updateWorld hw) st (Some (started hw + MAX_SERVERLESS_MS))
          = (tr, Some (Inr upd))
      \<and> (if wantsNames hw includeNames then names hw else Inr []) = Inr nameMap
      \<and> saveState hw = Some e"
  then have "refreshAndRespond hw includeNames = (?pre, Some (Inl e))"
    using refresh_saveState_error [of hw st tr upd includeNames nameMap e] by simp
  then show "handler hw refresh includeNames
        = Some (effectsBeforeRefresh hw refresh
                  @ [LoadState, Update tr]
                  @ (if wantsNames hw includeNames then [FetchNames] else [])
                  @ [SaveState (serializeState upd), ReleaseLock, Send 200 (errorEnvelope e)],
                200, errorEnvelope e)"
    using handler_refresh_error [of hw refresh includeNames ?pre e] a by simp
next
  let ?pre = "[LoadState, Update tr] @ (if wantsNames hw includeNames then [FetchNames] else [])
              @ [SaveState (serializeState upd),
                 SaveResp (formatResponsePayload upd includeNames
                             (if wantsNames hw includeNames then Some nameMap else None))]"
  assume a: "reachesRefresh hw refresh \<and> storedState hw = Inr st
      \<and> incrementalUpdate (updateWorld hw) st (Some (started hw + MAX_SERVERLESS_MS))
          = (tr, Some (Inr upd))
      \<and> (if wantsNames hw includeNames then names hw else Inr []) = Inr nameMap
      \<and> saveState hw = None \<and> saveResp hw = Some e"
  then have "refreshAndRespond hw includeNames = (?pre, Some (Inl e))"
    using refresh_saveResp_error [of hw st tr upd includeNames nameMap e] by simp
  then show "handler hw refresh includeNames
        = Some (effectsBeforeRefresh hw refresh
                  @ [LoadState, Update tr]
                  @ (if wantsNames hw includeNames then [FetchNames] else [])
                  @ [SaveState (serializeState upd),
                     SaveResp (formatResponsePayload upd includeNames
                                 (if wantsNames hw includeNames then Some nameMap else None)),
                     ReleaseLock, Send 200 (errorEnvelope e)],
                200, errorEnvelope e)"
    using handler_refresh_error [of hw refresh includeNames ?pre e] a by simp
qed

theorem handler_error_envelope_witness:
  "reachesRefresh exHandlerWorld True
   \<and> storedState exHandlerWorld = Inr (Some (exState 1699833600000 500))
   \<and> incrementalUpdate (updateWorld exHandlerWorld) (Some (exState 1699833600000 500))
       (Some (started exHandlerWorld + MAX_SERVERLESS_MS))
     = ([EthBlockNumber], Some (Inr ((exState 1699833600000 500)\<lparr>updatedAt := 1700000000900\<rparr>)))
   \<and> \<not> wantsNames exHandlerWorld False
   \<and> saveState exHandlerWorld = Some (JsError ''fetch failed'' None [])
   \<and> handler exHandlerWorld True False
     = Some ([AcquireLock, LoadState, Update [EthBlockNumber],
              SaveState (serializeState ((exState 1699833600000 500)\<lparr>updatedAt := 1700000000900\<rparr>)),
              ReleaseLock, Send 200 (errorEnvelope (JsError ''fetch failed'' None []))],
             200, errorEnvelope (JsError ''fetch failed'' None []))
   \<and> objGet (errorEnvelope (JsError ''fetch failed'' None [])) ''ok'' = Some (JBool False)"
proof -
  have r: "reachesRefresh exHandlerWorld True"
    by (simp add: reachesRefresh_def)
  have b: "effectsBeforeRefresh exHandlerWorld True = [AcquireLock]"
    by (simp add: effectsBeforeRefresh_def exHandlerWorld_def)
  have s: "storedState exHandlerWorld = Inr (Some (exState 1699833600000 500))"
    by (simp add: exHandlerWorld_def)
  have u: "incrementalUpdate (updateWorld exHandlerWorld) (Some (exState 1699833600000 500))
       (Some (started exHandlerWorld + MAX_SERVERLESS_MS))
     = ([EthBlockNumber], Some (Inr ((exState 1699833600000 500)\<lparr>updatedAt := 1700000000900\<rparr>)))"
    by (simp add: exHandlerWorld_def ex_update_noop)
  have n: "\<not> wantsNames exHandlerWorld False"
    by (simp add: wantsNames_def)
  have w: "saveState exHandlerWorld = Some (JsError ''fetch failed'' None [])"
    by (simp add: exHandlerWorld_def)
  show ?thesis
    using handler_error_envelope
      [of exHandlerWorld True False "JsError ''fetch failed'' None []"
          "Some (exState 1699833600000 500)" "[EthBlockNumber]"
          "(exState 1699833600000 500)\<lparr>updatedAt := 1700000000900\<rparr>" "[]"]
      r b s u n w
    by simp
qed

section \<open>Cursors and completeness flags in the state and in the payload\<close>

lemma advanceCurWeek_frame:
  assumes "advanceCurWeek w st cur latest dl = (tr, Some (Inr st'))"
  shows "prevWeekProcessedBlock_p2 st' = prevWeekProcessedBlock_p2 st"
    and "completePrevWeek_p2 st' = completePrevWeek_p2 st"
    and "completeCurWeek_p2 st' \<Longrightarrow> completeCurWeek_p2 st \<or> curWeekProcessedBlock_p2 st' = Some latest"
    and "completeCurWeek_p2 st \<Longrightarrow> st' = st"
  using assms
  by (auto simp: advanceCurWeek_def split: if_splits sum.splits option.splits prod.splits)

lemma advancePrevWeek_skip:
  assumes "case dl of None \<Rightarrow> True | Some d \<Rightarrow> d - 250 \<le> nowMid w"
  shows "advancePrevWeek w st prev dl = ([], Some (Inr st))"
  using assms by (auto simp: advancePrevWeek_def split: option.splits)

lemma incrementalUpdate_p2_steps:
  assumes "\<not> needsBackfill_p2 w s2"
    and "incrementalUpdate_p2 w (Some s2) dl = (tr, Some (Inr s'))"
    and "case dl of None \<Rightarrow> True | Some d \<Rightarrow> d - 250 \<le> nowMid w"
  obtains latest st1 st2 tr1 where "latestBlock w = Inr latest"
    and "prevWeekProcessedBlock_p2 st1 = prevWeekProcessedBlock_p2 s2"
    and "completePrevWeek_p2 st1 = completePrevWeek_p2 s2"
    and "curWeekProcessedBlock_p2 st1 = curWeekProcessedBlock_p2 s2"
    and "completeCurWeek_p2 st1 = completeCurWeek_p2 s2"
    and "advanceCurWeek w st1 (weekStartUtcMs (nowStart w)) latest dl = (tr1, Some (Inr st2))"
    and "prevWeekProcessedBlock_p2 s' = prevWeekProcessedBlock_p2 st2"
    and "completePrevWeek_p2 s' = completePrevWeek_p2 st2"
    and "curWeekProcessedBlock_p2 s' = curWeekProcessedBlock_p2 st2"
    and "completeCurWeek_p2 s' = completeCurWeek_p2 st2"
proof -
  let ?cur = "weekStartUtcMs (nowStart w)"
  obtain latest where latest: "latestBlock w = Inr latest"
    using assms(2) by (cases "latestBlock w") (auto simp: incrementalUpdate_p2_def Let_def)
  define st1 where "st1 = s2\<lparr>latestBlock_p2 := Some latest, currentWeekMs_p2 := ?cur,
      lastWeekMs_p2 := ?cur - 604800000,
      weeks_p2 := keepTwoWeeks ?cur (?cur - 604800000) (weeks_p2 s2)\<rparr>"
  have init: "initialState_p2 w (Some s2) = ([], Inr s2)"
    using assms(1) by (simp add: initialState_p2_def)
  obtain tr1 res1 where a: "advanceCurWeek w st1 ?cur latest dl = (tr1, res1)"
    by (cases "advanceCurWeek w st1 ?cur latest dl")
  have skip: "advancePrevWeek w st (?cur - 604800000) dl = ([], Some (Inr st))" for st
    using assms(3) by (rule advancePrevWeek_skip)
  from assms(2) obtain st2 where res1: "res1 = Some (Inr st2)"
    and s': "s' = st2\<lparr>weeks_p2 := map (\<lambda>wk. \<lparr>weekMs = weekMs wk,
                                            wmap = pruneToTop (wmap wk) PRUNE_KEEP\<rparr>)
                                   (weeks_p2 st2),
                      updatedAt_p2 := nowEnd w\<rparr>"
    unfolding incrementalUpdate_p2_def Let_def latest init
    by (auto simp: a [unfolded st1_def] skip split: option.splits sum.splits)
  show ?thesis
    by (rule that [of latest st1 tr1 st2])
      (simp_all add: latest st1_def s' a [unfolded res1, unfolded st1_def])
qed


text \<open>
  Claim C2, as amended. In the revision with schema version 5 (\<^verbatim>\<open>src/unnamed/part_002\<close>)
  every aggregation state carries, for each of the two week buckets, its own processed-block
  cursor and its own completeness flag; the stored form keeps the four of them and the
  metadata of the formatted payload shows the four of them (a cursor as its decimal string,
  \<open>null\<close> when absent or zero). The two advance independently: an update of a reused state
  that has used up its time budget after the current-week scan leaves the previous week's
  cursor and flag as they were, and marks the current week complete only with its cursor at
  the latest block. In \<^verbatim>\<open>api/leaderboard.js\<close> (schema version 4) the state has one
  cursor for both buckets, \<open>lastProcessedBlock\<close>, and no completeness flag: its stored
  form and the metadata of its payload have exactly the properties listed, with that one
  cursor.
\<close>

theorem cursors_by_revision:
  assumes "\<not> needsBackfill_p2 w s2"
    and "latestBlock w = Inr latest"
    and "incrementalUpdate_p2 w (Some s2) deadlineMs = (tr, Some (Inr s2'))"
    and "case deadlineMs of None \<Rightarrow> True | Some d \<Rightarrow> d - 250 \<le> nowMid w"
  shows "objGet (metaOf (formatResponsePayload_p2 storeKind st includeNames fcMap)) ''completeCurWeek''
     = Some (JBool (completeCurWeek_p2 st))
   \<and> objGet (metaOf (formatResponsePayload_p2 storeKind st includeNames fcMap)) ''completePrevWeek''
     = Some (JBool (completePrevWeek_p2 st))
   \<and> objGet (metaOf (formatResponsePayload_p2 storeKind st includeNames fcMap)) ''curWeekProcessedBlock''
     = Some (blockOrNull (curWeekProcessedBlock_p2 st))
   \<and> objGet (metaOf (formatResponsePayload_p2 storeKind st includeNames fcMap)) ''prevWeekProcessedBlock''
     = Some (blockOrNull (prevWeekProcessedBlock_p2 st))
   \<and> objGet (serializeState_p2 st) ''completeCurWeek'' = Some (JBool (completeCurWeek_p2 st))
   \<and> objGet (serializeState_p2 st) ''completePrevWeek'' = Some (JBool (completePrevWeek_p2 st))
   \<and> objGet (serializeState_p2 st) ''curWeekProcessedBlock''
     = Some (blockOrNull (curWeekProcessedBlock_p2 st))
   \<and> objGet (serializeState_p2 st) ''prevWeekProcessedBlock''
     = Some (blockOrNull (prevWeekProcessedBlock_p2 st))
   \<and> prevWeekProcessedBlock_p2 s2' = prevWeekProcessedBlock_p2 s2
   \<and> completePrevWeek_p2 s2' = completePrevWeek_p2 s2
   \<and> (completeCurWeek_p2 s2' \<longrightarrow>
        completeCurWeek_p2 s2 \<or> curWeekProcessedBlock_p2 s2' = Some latest)
   \<and> objKeys (metaOf (formatResponsePayload s includeNames fcMap))
     = [''schemaVersion'', ''weeklyUsers'', ''lastWeekUsers'', ''lastProcessedBlock'', ''updatedAt'']
   \<and> objGet (metaOf (formatResponsePayload s includeNames fcMap)) ''lastProcessedBlock''
     = Some (blockOrNull (lastProcessedBlock s))
   \<and> objKeys (serializeState s)
     = [''schemaVersion'', ''backfillFromBlock'', ''anchorTsSec'', ''currentWeekMs'', ''lastWeekMs'',
        ''lastProcessedBlock'', ''weeks'', ''updatedAt'']"
proof -
  have shape2: "objGet (metaOf (formatResponsePayload_p2 storeKind st includeNames fcMap)) ''completeCurWeek''
     = Some (JBool (completeCurWeek_p2 st))
   \<and> objGet (metaOf (formatResponsePayload_p2 storeKind st includeNames fcMap)) ''completePrevWeek''
     = Some (JBool (completePrevWeek_p2 st))
   \<and> objGet (metaOf (formatResponsePayload_p2 storeKind st includeNames fcMap)) ''curWeekProcessedBlock''
     = Some (blockOrNull (curWeekProcessedBlock_p2 st))
   \<and> objGet (metaOf (formatResponsePayload_p2 storeKind st includeNames fcMap)) ''prevWeekProcessedBlock''
     = Some (blockOrNull (prevWeekProcessedBlock_p2 st))
   \<and> objGet (serializeState_p2 st) ''completeCurWeek'' = Some (JBool (completeCurWeek_p2 st))
   \<and> objGet (serializeState_p2 st) ''completePrevWeek'' = Some (JBool (completePrevWeek_p2 st))
   \<and> objGet (serializeState_p2 st) ''curWeekProcessedBlock''
     = Some (blockOrNull (curWeekProcessedBlock_p2 st))
   \<and> objGet (serializeState_p2 st) ''prevWeekProcessedBlock''
     = Some (blockOrNull (prevWeekProcessedBlock_p2 st))"
    by (simp add: formatResponsePayload_p2_def serializeState_p2_def metaOf_def objGet_def Let_def)
  have shape1: "objKeys (metaOf (formatResponsePayload s includeNames fcMap))
     = [''schemaVersion'', ''weeklyUsers'', ''lastWeekUsers'', ''lastProcessedBlock'', ''updatedAt'']
   \<and> objGet (metaOf (formatResponsePayload s includeNames fcMap)) ''lastProcessedBlock''
     = Some (blockOrNull (lastProcessedBlock s))
   \<and> objKeys (serializeState s)
     = [''schemaVersion'', ''backfillFromBlock'', ''anchorTsSec'', ''currentWeekMs'', ''lastWeekMs'',
        ''lastProcessedBlock'', ''weeks'', ''updatedAt'']"
    by (simp add: formatResponsePayload_def serializeState_def metaOf_def objGet_def objKeys_def
        Let_def)
  have indep: "prevWeekProcessedBlock_p2 s2' = prevWeekProcessedBlock_p2 s2
   \<and> completePrevWeek_p2 s2' = completePrevWeek_p2 s2
   \<and> (completeCurWeek_p2 s2' \<longrightarrow>
        completeCurWeek_p2 s2 \<or> curWeekProcessedBlock_p2 s2' = Some latest)"
  proof (rule incrementalUpdate_p2_steps [OF assms(1,3,4)])
    fix latest' st1 st2 tr1
    assume l: "latestBlock w = Inr latest'"
      and f1: "prevWeekProcessedBlock_p2 st1 = prevWeekProcessedBlock_p2 s2"
        "completePrevWeek_p2 st1 = completePrevWeek_p2 s2"
        "curWeekProcessedBlock_p2 st1 = curWeekProcessedBlock_p2 s2"
        "completeCurWeek_p2 st1 = completeCurWeek_p2 s2"
      and a: "advanceCurWeek w st1 (weekStartUtcMs (nowStart w)) latest' deadlineMs
                = (tr1, Some (Inr st2))"
      and f2: "prevWeekProcessedBlock_p2 s2' = prevWeekProcessedBlock_p2 st2"
        "completePrevWeek_p2 s2' = completePrevWeek_p2 st2"
        "curWeekProcessedBlock_p2 s2' = curWeekProcessedBlock_p2 st2"
        "completeCurWeek_p2 s2' = completeCurWeek_p2 st2"
    have eq: "latest' = latest" using l assms(2) by simp
    note fr = advanceCurWeek_frame [OF a]
    show ?thesis
      using fr(1,2,3) f1 f2 by (auto simp: eq)
  qed
  show ?thesis
    using shape2 shape1 indep by blast
qed

theorem cursors_by_revision_witness:
  "\<not> needsBackfill_p2 exWorld_p2 exState_p2
   \<and> latestBlock exWorld_p2 = Inr 500
   \<and> fst (incrementalUpdate_p2 exWorld_p2 (Some exState_p2) (Some 1700000008500))
       = [EthBlockNumber, EthGetLogs 401 500 (Inr [])]
   \<and> (\<exists>s'. snd (incrementalUpdate_p2 exWorld_p2 (Some exState_p2) (Some 1700000008500))
            = Some (Inr s')
          \<and> completeCurWeek_p2 s' \<and> curWeekProcessedBlock_p2 s' = Some 500
          \<and> \<not> completePrevWeek_p2 s' \<and> prevWeekProcessedBlock_p2 s' = Some 150
          \<and> objGet (metaOf (formatResponsePayload_p2 None s' False None)) ''completeCurWeek''
              = Some (JBool True)
          \<and> objGet (metaOf (formatResponsePayload_p2 None s' False None)) ''completePrevWeek''
              = Some (JBool False))"
proof -
  have nb: "\<not> needsBackfill_p2 exWorld_p2 exState_p2"
    by (simp add: needsBackfill_p2_def exWorld_p2_def exState_p2_def STATE_SCHEMA_VERSION_p2_def
        weekStart_example bigTruthy_def)
  have lb: "latestBlock exWorld_p2 = Inr 500" by (simp add: exWorld_p2_def)
  have bud: "case Some (1700000008500::int) of None \<Rightarrow> True | Some d \<Rightarrow> d - 250 \<le> nowMid exWorld_p2"
    by (simp add: exWorld_p2_def)
  obtain tr res where run: "incrementalUpdate_p2 exWorld_p2 (Some exState_p2) (Some 1700000008500) = (tr, res)"
    by (cases "incrementalUpdate_p2 exWorld_p2 (Some exState_p2) (Some 1700000008500)")
  have v: "nowStart exWorld_p2 = 1700000000000" "rpcTicks exWorld_p2 = [(1700000000200, \<lambda>f t. Inr [])]"
    "nowMid exWorld_p2 = 1700000008400" "nowEnd exWorld_p2 = 1700000008900"
    by (simp_all add: exWorld_p2_def)
  have init: "initialState_p2 exWorld_p2 (Some exState_p2) = ([], Inr exState_p2)"
    using nb by (simp add: initialState_p2_def)
  have f: "\<not> completeCurWeek_p2 exState_p2" "curWeekProcessedBlock_p2 exState_p2 = Some 400"
    "\<not> completePrevWeek_p2 exState_p2"
    by (simp_all add: exState_p2_def)
  have sc: "scanSegment exWorld_p2 [(1700000000200, \<lambda>f t. Inr [])] 401 500 (Some 1700000008500)
      = ([EthGetLogs 401 500 (Inr [])],
         Some (Inr \<lparr>logs = [], lastScannedBlock = 500, complete = True\<rparr>))"
    by (simp add: scanSegment_def fetchLogsRange_def deadlinePassed_def)
  have tr: "tr = [EthBlockNumber, EthGetLogs 401 500 (Inr [])]"
    and res: "\<exists>s'. res = Some (Inr s') \<and> completeCurWeek_p2 s' \<and> curWeekProcessedBlock_p2 s' = Some 500"
    using run
    by (auto simp: incrementalUpdate_p2_def init lb v Let_def advanceCurWeek_def
        advancePrevWeek_def nextBlock_def applyLogsToWeekMap_def f sc weekStart_example)
  from res obtain s' where s': "res = Some (Inr s')" "completeCurWeek_p2 s'"
    "curWeekProcessedBlock_p2 s' = Some 500" by blast
  have ex: "prevWeekProcessedBlock_p2 exState_p2 = Some 150" "\<not> completePrevWeek_p2 exState_p2"
    by (simp_all add: exState_p2_def)
  show ?thesis
    using nb lb run tr s' ex
      cursors_by_revision [OF nb lb run [unfolded s'(1)] bud, of None s' False None]
    by simp
qed

text \<open>
  Claim C2 as stated fails on \<^verbatim>\<open>api/leaderboard.js\<close>: the metadata of the payload of a
  state has neither a completeness flag nor a cursor for each bucket.
\<close>

theorem single_cursor_payload:
  "objGet (metaOf (formatResponsePayload (exState 1699833600000 400) False None)) ''completeCurWeek'' = None
   \<and> objGet (metaOf (formatResponsePayload (exState 1699833600000 400) False None)) ''completePrevWeek'' = None
   \<and> objGet (metaOf (formatResponsePayload (exState 1699833600000 400) False None)) ''curWeekProcessedBlock'' = None
   \<and> objGet (metaOf (formatResponsePayload (exState 1699833600000 400) False None)) ''prevWeekProcessedBlock'' = None
   \<and> metaOf (formatResponsePayload (exState 1699833600000 400) False None)
     = JObj [(''schemaVersion'', JNum 4), (''weeklyUsers'', JNum 1), (''lastWeekUsers'', JNum 1),
             (''lastProcessedBlock'', JStr ''400''), (''updatedAt'', JNum 1699999999000)]"
  by (simp add: formatResponsePayload_def metaOf_def objGet_def Let_def exState_def
      weekMapOrEmpty_def findWeek_def blockOrNull_def bigTruthy_def bigintToString_def
      digitChar_def)

end
